theory Spec2Isabelle
  imports Complex_Main
begin

section \<open>JavaScript numbers\<close>

text \<open>
  Every coordinate of \<^verbatim>\<open>src/app/app.js\<close> is a JavaScript Number, an IEEE 754 binary64
  value. A finite value is kept as the rational it denotes; the two zeros, the two
  infinities and NaN are values of their own. \<open>Fin 0\<close> is the positive zero and
  \<open>NZero\<close> the negative one. Each arithmetic operation computes the exact rational
  result and rounds it to the nearest binary64 value, ties to the even significand.
\<close>

datatype jsnum = NaN | PInf | NInf | NZero | Fin rat

fun bit_length :: "nat \<Rightarrow> nat" where
  "bit_length n = (if n = 0 then 0 else Suc (bit_length (n div 2)))"

declare bit_length.simps [simp del]

definition pow2 :: "int \<Rightarrow> rat" where
  "pow2 e = (if 0 \<le> e then 2 ^ nat e else 1 / 2 ^ nat (- e))"

text \<open>The binary exponent of a positive rational: \<open>2 ^ ilog2 a \<le> a < 2 ^ (ilog2 a + 1)\<close>.\<close>

definition ilog2 :: "rat \<Rightarrow> int" where
  "ilog2 a = (if 1 \<le> a then int (bit_length (nat \<lfloor>a\<rfloor>)) - 1
              else - int (bit_length (nat (\<lceil>1 / a\<rceil> - 1))))"

definition round_even :: "rat \<Rightarrow> int" where
  "round_even a = (let f = \<lfloor>a\<rfloor>; r = a - of_int f
     in if r < 1 / 2 then f else if 1 / 2 < r then f + 1 else if even f then f else f + 1)"

text \<open>
  Rounding of a non-zero exact result: 53 significant bits, exponents from -1022
  (below that the spacing stays \<open>2 ^ -1074\<close>, the subnormal numbers) to 1023 (a result
  that rounds to \<open>2 ^ 1024\<close> or more is an infinity). A result that rounds to zero keeps
  the sign of the exact value.
\<close>

definition rnd :: "rat \<Rightarrow> jsnum" where
  "rnd q = (let a = \<bar>q\<bar>; e = max (ilog2 a) (- 1022); u = pow2 (e - 52);
               m = round_even (a / u)
            in if 1024 \<le> e \<or> (e = 1023 \<and> m = 2 ^ 53) then (if q < 0 then NInf else PInf)
               else if m = 0 then (if q < 0 then NZero else Fin 0)
               else Fin (if q < 0 then - (of_int m * u) else of_int m * u))"

definition is_zero :: "jsnum \<Rightarrow> bool" where
  "is_zero a = (a = NZero \<or> a = Fin 0)"

definition is_inf :: "jsnum \<Rightarrow> bool" where
  "is_inf a = (a = PInf \<or> a = NInf)"

fun sign_neg :: "jsnum \<Rightarrow> bool" where
  "sign_neg NaN = False"
| "sign_neg PInf = False"
| "sign_neg NInf = True"
| "sign_neg NZero = True"
| "sign_neg (Fin q) = (q < 0)"

fun val :: "jsnum \<Rightarrow> rat" where
  "val (Fin q) = q"
| "val _ = 0"

text \<open>Unary minus.\<close>

fun js_neg :: "jsnum \<Rightarrow> jsnum" where
  "js_neg NaN = NaN"
| "js_neg PInf = NInf"
| "js_neg NInf = PInf"
| "js_neg NZero = Fin 0"
| "js_neg (Fin q) = (if q = 0 then NZero else Fin (- q))"

text \<open>
  \<^verbatim>\<open>a + b\<close>: NaN is contagious, the sum of opposite infinities is NaN, the sum of
  two negative zeros is the negative zero, and an exact sum of zero is the positive zero.
\<close>

fun js_add :: "jsnum \<Rightarrow> jsnum \<Rightarrow> jsnum" where
  "js_add NaN b = NaN"
| "js_add a NaN = NaN"
| "js_add PInf NInf = NaN"
| "js_add NInf PInf = NaN"
| "js_add PInf b = PInf"
| "js_add a PInf = PInf"
| "js_add NInf b = NInf"
| "js_add a NInf = NInf"
| "js_add NZero b = b"
| "js_add a NZero = a"
| "js_add (Fin p) (Fin q) = (if p + q = 0 then Fin 0 else rnd (p + q))"

text \<open>\<^verbatim>\<open>a - b\<close> is \<^verbatim>\<open>a + (-b)\<close>.\<close>

definition js_sub :: "jsnum \<Rightarrow> jsnum \<Rightarrow> jsnum" where
  "js_sub a b = js_add a (js_neg b)"

definition signed_inf :: "bool \<Rightarrow> jsnum" where
  "signed_inf n = (if n then NInf else PInf)"

definition signed_zero :: "bool \<Rightarrow> jsnum" where
  "signed_zero n = (if n then NZero else Fin 0)"

text \<open>\<^verbatim>\<open>a * b\<close>: an infinity times a zero is NaN; the sign is the exclusive or of the signs.\<close>

definition js_mul :: "jsnum \<Rightarrow> jsnum \<Rightarrow> jsnum" where
  "js_mul a b =
     (if a = NaN \<or> b = NaN then NaN
      else if (is_inf a \<and> is_zero b) \<or> (is_zero a \<and> is_inf b) then NaN
      else if is_inf a \<or> is_inf b then signed_inf (sign_neg a \<noteq> sign_neg b)
      else if is_zero a \<or> is_zero b then signed_zero (sign_neg a \<noteq> sign_neg b)
      else rnd (val a * val b))"

text \<open>
  \<^verbatim>\<open>a / b\<close> never throws: zero by zero and infinity by infinity are NaN, any other
  division by a zero is an infinity.
\<close>

definition js_div :: "jsnum \<Rightarrow> jsnum \<Rightarrow> jsnum" where
  "js_div a b =
     (if a = NaN \<or> b = NaN then NaN
      else if (is_inf a \<and> is_inf b) \<or> (is_zero a \<and> is_zero b) then NaN
      else if is_inf a \<or> is_zero b then signed_inf (sign_neg a \<noteq> sign_neg b)
      else if is_zero a \<or> is_inf b then signed_zero (sign_neg a \<noteq> sign_neg b)
      else rnd (val a / val b))"

text \<open>
  The order \<^verbatim>\<open>Math.max\<close> and \<^verbatim>\<open>Math.min\<close> compare with: the numeric order, with the
  negative zero below the positive zero. NaN is never compared.
\<close>

fun below :: "jsnum \<Rightarrow> jsnum \<Rightarrow> bool" where
  "below NaN b = False"
| "below a NaN = False"
| "below NInf NInf = False"
| "below NInf b = True"
| "below a NInf = False"
| "below PInf b = False"
| "below a PInf = True"
| "below NZero NZero = False"
| "below NZero (Fin q) = (0 \<le> q)"
| "below (Fin p) NZero = (p < 0)"
| "below (Fin p) (Fin q) = (p < q)"

definition Math_max :: "jsnum \<Rightarrow> jsnum \<Rightarrow> jsnum" where
  "Math_max a b = (if a = NaN \<or> b = NaN then NaN else if below a b then b else a)"

definition Math_min :: "jsnum \<Rightarrow> jsnum \<Rightarrow> jsnum" where
  "Math_min a b = (if a = NaN \<or> b = NaN then NaN else if below b a then b else a)"

section \<open>Data model\<close>

text \<open>
  A placed field is the object \<^verbatim>\<open>{ id, pageNum, left, top, type, assignedTo }\<close> of
  \<^verbatim>\<open>handleDrop\<close>; \<^verbatim>\<open>assignedTo\<close> is \<^verbatim>\<open>null\<close> or a string. A filler is
  \<^verbatim>\<open>{ id, email }\<close>. Field ids come from the counter \<^verbatim>\<open>nextId\<close>, which starts at 0 and
  grows by one: a natural number (the counter is exact below \<open>2 ^ 53\<close>). A string is a
  list of code units; a \<open>char\<close> stands for a code unit below 256.
\<close>

record field =
  id_f :: nat
  pageNum :: nat
  left_f :: jsnum
  top_f :: jsnum
  type_f :: string
  assignedTo :: "string option"

record filler =
  id_r :: string
  email :: string

text \<open>
  The state of the \<^verbatim>\<open>App\<close> component: one \<^verbatim>\<open>useState\<close> cell each. \<open>pdf\<close> says
  whether a document is loaded.
\<close>

record app =
  pdf :: bool
  numPages :: nat
  placedFields :: "field list"
  fillers :: "filler list"
  newFillerEmail :: string
  nextId :: nat

definition init_app :: app where
  "init_app = \<lparr>pdf = False, numPages = 0, placedFields = [], fillers = [],
                newFillerEmail = [], nextId = 0\<rparr>"

text \<open>A point \<^verbatim>\<open>{ x, y }\<close> and the \<^verbatim>\<open>DOMRect\<close> of \<^verbatim>\<open>getBoundingClientRect()\<close>.\<close>

record point =
  x_p :: jsnum
  y_p :: jsnum

record rect =
  left_r :: jsnum
  top_r :: jsnum
  width :: jsnum
  height :: jsnum

text \<open>
  The drag item: \<^verbatim>\<open>{ type }\<close> from the sidebar, \<^verbatim>\<open>{ id, left, top, type }\<close> from a placed
  field. The drop monitor answers two queries, each with a point or \<^verbatim>\<open>null\<close>.
\<close>

datatype item = NewItem string | PlacedItem nat jsnum jsnum string

record monitor =
  getDifferenceFromInitialOffset :: "point option"
  getClientOffset :: "point option"

section \<open>The recipient list\<close>

text \<open>
  The test \<^verbatim>\<open>/\S+@\S+\.\S+/.test(s)\<close>: somewhere in \<open>s\<close> there is a run of one or more
  non-space code units, an \<^verbatim>\<open>@\<close>, another such run, a dot and a third run. Each function
  says whether a prefix of its argument matches the rest of the pattern; a run may stop
  after any of its code units, as the backtracking matcher tries.
\<close>

definition js_space :: "char \<Rightarrow> bool" where
  "js_space c = (of_char c \<in> {9, 10, 11, 12, 13, 32, 160 :: nat})"

fun match_run :: "string \<Rightarrow> bool" where
  "match_run [] = False"
| "match_run (c # cs) = (\<not> js_space c)"

fun match_dot :: "string \<Rightarrow> bool" where
  "match_dot [] = False"
| "match_dot (c # cs) =
     (\<not> js_space c \<and>
      ((case cs of [] \<Rightarrow> False | d # ds \<Rightarrow> d = CHR ''.'' \<and> match_run ds) \<or> match_dot cs))"

fun match_at :: "string \<Rightarrow> bool" where
  "match_at [] = False"
| "match_at (c # cs) =
     (\<not> js_space c \<and>
      ((case cs of [] \<Rightarrow> False | d # ds \<Rightarrow> d = CHR ''@'' \<and> match_dot ds) \<or> match_at cs))"

fun regex_test :: "string \<Rightarrow> bool" where
  "regex_test [] = False"
| "regex_test (c # cs) = (match_at (c # cs) \<or> regex_test cs)"

text \<open>The decimal digits of \<^verbatim>\<open>Date.now()\<close>, as the template literal prints them.\<close>

definition digit :: "nat \<Rightarrow> char" where
  "digit d = ''0123456789'' ! d"

fun string_of_nat :: "nat \<Rightarrow> string" where
  "string_of_nat n =
     (if n < 10 then [digit n] else string_of_nat (n div 10) @ [digit (n mod 10)])"

declare string_of_nat.simps [simp del]

text \<open>
  \<^verbatim>\<open>addFiller\<close> reads the e-mail from the input's state and the clock; \<open>now\<close> is the
  value of \<^verbatim>\<open>Date.now()\<close>.
\<close>

definition addFiller :: "nat \<Rightarrow> app \<Rightarrow> app" where
  "addFiller now s =
     (if newFillerEmail s \<noteq> [] \<and> regex_test (newFillerEmail s)
         \<and> \<not> list_ex (\<lambda>f. email f = newFillerEmail s) (fillers s)
      then s\<lparr>fillers := fillers s @
                 [\<lparr>id_r = ''filler_'' @ string_of_nat now, email = newFillerEmail s\<rparr>],
              newFillerEmail := []\<rparr>
      else s)"

text \<open>
  \<^verbatim>\<open>removeFiller\<close> sets both lists in one event handler; React applies the two updates
  together, so the handler is one step of the state.
\<close>

definition removeFiller :: "string \<Rightarrow> app \<Rightarrow> app" where
  "removeFiller rid s =
     s\<lparr>fillers := filter (\<lambda>f. id_r f \<noteq> rid) (fillers s),
       placedFields := map (\<lambda>f. if assignedTo f = Some rid then f\<lparr>assignedTo := None\<rparr> else f)
                           (placedFields s)\<rparr>"

definition setNewFillerEmail :: "string \<Rightarrow> app \<Rightarrow> app" where
  "setNewFillerEmail e s = s\<lparr>newFillerEmail := e\<rparr>"

text \<open>Loading a document (the \<^verbatim>\<open>onload\<close> callback of \<^verbatim>\<open>onFileChange\<close>) resets the session.\<close>

definition fileLoaded :: "nat \<Rightarrow> app \<Rightarrow> app" where
  "fileLoaded n s = s\<lparr>pdf := True, numPages := n, placedFields := [], fillers := [],
                       newFillerEmail := [], nextId := 0\<rparr>"

section \<open>The field list\<close>

definition handleDrop :: "string \<Rightarrow> nat \<Rightarrow> jsnum \<Rightarrow> jsnum \<Rightarrow> app \<Rightarrow> app" where
  "handleDrop ty pn l t s =
     s\<lparr>placedFields := placedFields s @
          [\<lparr>id_f = nextId s, pageNum = pn, left_f = l, top_f = t, type_f = ty,
            assignedTo = None\<rparr>],
       nextId := nextId s + 1\<rparr>"

definition handleMoveField :: "nat \<Rightarrow> jsnum \<Rightarrow> jsnum \<Rightarrow> app \<Rightarrow> app" where
  "handleMoveField i l t s =
     s\<lparr>placedFields := map (\<lambda>f. if id_f f = i then f\<lparr>left_f := l, top_f := t\<rparr> else f)
                           (placedFields s)\<rparr>"

text \<open>\<^verbatim>\<open>fillerId || null\<close>: the empty string becomes \<^verbatim>\<open>null\<close>.\<close>

definition handleAssignField :: "nat \<Rightarrow> string \<Rightarrow> app \<Rightarrow> app" where
  "handleAssignField fieldId fillerId s =
     s\<lparr>placedFields :=
          map (\<lambda>f. if id_f f = fieldId
                    then f\<lparr>assignedTo := (if fillerId = [] then None else Some fillerId)\<rparr>
                    else f)
              (placedFields s)\<rparr>"

section \<open>The drop handler of a page\<close>

text \<open>
  The \<^verbatim>\<open>drop\<close> callback of \<^verbatim>\<open>PdfPage\<close>. \<open>cur\<close> is \<^verbatim>\<open>dropRef.current\<close>: \<open>None\<close> when the
  element is not mounted, else the rectangle \<^verbatim>\<open>getBoundingClientRect()\<close> returns. Each
  early \<^verbatim>\<open>return\<close> leaves the state as it is.
\<close>

definition drop_PdfPage :: "nat \<Rightarrow> item \<Rightarrow> monitor \<Rightarrow> rect option \<Rightarrow> app \<Rightarrow> app" where
  "drop_PdfPage pn it m cur s =
     (case cur of
        None \<Rightarrow> s
      | Some dropTargetRect \<Rightarrow>
          (case it of
             PlacedItem i item_left item_top ty \<Rightarrow>
               (case getDifferenceFromInitialOffset m of
                  None \<Rightarrow> s
                | Some delta \<Rightarrow>
                    (let deltaX_percent = js_mul (js_div (x_p delta) (width dropTargetRect)) (Fin 100);
                         deltaY_percent = js_mul (js_div (y_p delta) (height dropTargetRect)) (Fin 100);
                         newLeft = js_add item_left deltaX_percent;
                         newTop = js_add item_top deltaY_percent;
                         newLeft = Math_max (Fin 0) (Math_min (Fin 100) newLeft);
                         newTop = Math_max (Fin 0) (Math_min (Fin 100) newTop)
                     in handleMoveField i newLeft newTop s))
           | NewItem ty \<Rightarrow>
               (case getClientOffset m of
                  None \<Rightarrow> s
                | Some offset \<Rightarrow>
                    (let l = Math_max (Fin 0) (Math_min (Fin 100)
                               (js_mul (js_div (js_sub (x_p offset) (left_r dropTargetRect))
                                               (width dropTargetRect)) (Fin 100)));
                         t = Math_max (Fin 0) (Math_min (Fin 100)
                               (js_mul (js_div (js_sub (y_p offset) (top_r dropTargetRect))
                                               (height dropTargetRect)) (Fin 100)))
                     in handleDrop ty pn l t s))))"

section \<open>Sending\<close>

text \<open>\<^verbatim>\<open>!field.assignedTo\<close>: true of \<^verbatim>\<open>null\<close> and of the empty string.\<close>

definition falsy :: "string option \<Rightarrow> bool" where
  "falsy a = (case a of None \<Rightarrow> True | Some v \<Rightarrow> v = [])"

text \<open>The payload's field: the placed field without its \<^verbatim>\<open>id\<close> (\<^verbatim>\<open>({id, ...rest}) => rest\<close>).\<close>

record sent_field =
  pageNum_s :: nat
  left_s :: jsnum
  top_s :: jsnum
  type_s :: string
  assignedTo_s :: "string option"

record payload =
  fillers_s :: "filler list"
  fields_s :: "sent_field list"

definition rest :: "field \<Rightarrow> sent_field" where
  "rest f = \<lparr>pageNum_s = pageNum f, left_s = left_f f, top_s = top_f f, type_s = type_f f,
              assignedTo_s = assignedTo f\<rparr>"

definition dataToSend :: "app \<Rightarrow> payload" where
  "dataToSend s = \<lparr>fillers_s = fillers s, fields_s = map rest (placedFields s)\<rparr>"

text \<open>\<^verbatim>\<open>handleSend\<close> either alerts one of three messages and returns, or builds the payload.\<close>

datatype send_result = Alert string | Sent payload

definition handleSend :: "app \<Rightarrow> send_result" where
  "handleSend s =
     (let isAnyFieldUnassigned = list_ex (\<lambda>f. falsy (assignedTo f)) (placedFields s)
      in if length (placedFields s) = 0
         then Alert ''Please place at least one field on the document.''
         else if isAnyFieldUnassigned
         then Alert ''Please assign all placed fields to a filler.''
         else if length (fillers s) = 0
         then Alert ''Please add at least one filler.''
         else Sent (dataToSend s))"

text \<open>The \<^verbatim>\<open>disabled\<close> attribute of the Send Document button.\<close>

definition send_disabled :: "app \<Rightarrow> bool" where
  "send_disabled s =
     (length (placedFields s) = 0 \<or> length (fillers s) = 0
      \<or> list_ex (\<lambda>f. falsy (assignedTo f)) (placedFields s))"

section \<open>The states of a session\<close>

text \<open>
  The events the page can deliver. The field and filler controls exist only while a
  document is loaded. A page exists for each number from 1 to \<open>numPages\<close>. A placed item
  is dragged from a field on display and carries that field's id, position and type. The
  remove button of a filler passes that filler's id. The select of a field offers the
  empty value and the id of each filler, and passes the chosen one.
\<close>

definition item_of :: "field \<Rightarrow> item" where
  "item_of f = PlacedItem (id_f f) (left_f f) (top_f f) (type_f f)"

inductive reachable :: "app \<Rightarrow> bool" where
  start: "reachable init_app"
| load: "reachable s \<Longrightarrow> reachable (fileLoaded n s)"
| typing: "reachable s \<Longrightarrow> pdf s \<Longrightarrow> reachable (setNewFillerEmail e s)"
| add: "reachable s \<Longrightarrow> pdf s \<Longrightarrow> reachable (addFiller now s)"
| remove: "reachable s \<Longrightarrow> pdf s \<Longrightarrow> r \<in> set (fillers s) \<Longrightarrow> reachable (removeFiller (id_r r) s)"
| drop_new: "reachable s \<Longrightarrow> pdf s \<Longrightarrow> 1 \<le> pn \<Longrightarrow> pn \<le> numPages s \<Longrightarrow>
     reachable (drop_PdfPage pn (NewItem ty) m cur s)"
| drop_placed: "reachable s \<Longrightarrow> pdf s \<Longrightarrow> 1 \<le> pn \<Longrightarrow> pn \<le> numPages s \<Longrightarrow>
     f \<in> set (placedFields s) \<Longrightarrow> reachable (drop_PdfPage pn (item_of f) m cur s)"
| assign: "reachable s \<Longrightarrow> pdf s \<Longrightarrow> f \<in> set (placedFields s) \<Longrightarrow>
     v = [] \<or> v \<in> id_r ` set (fillers s) \<Longrightarrow> reachable (handleAssignField (id_f f) v s)"

section \<open>The specification's operations\<close>

text \<open>
  The specification names operations that the source has no function for. Each
  definition here follows the specification's wording, to be compared with the code above.
\<close>

text \<open>
  \<open>isReadyToSend(fields, recipients)\<close>: the fields are non-empty, the recipients are
  non-empty, and every field has a non-null \<open>assignedTo\<close>.
\<close>

definition isReadyToSend_spec :: "field list \<Rightarrow> filler list \<Rightarrow> bool" where
  "isReadyToSend_spec fs rs =
     (fs \<noteq> [] \<and> rs \<noteq> [] \<and> list_all (\<lambda>f. assignedTo f \<noteq> None) fs)"

text \<open>
  Clamping to \<open>[0, 100]\<close>: a finite value is brought into the interval, an infinity goes to
  the nearer end, and NaN, which is not ordered, stays.
\<close>

fun clamp_spec :: "jsnum \<Rightarrow> jsnum" where
  "clamp_spec NaN = NaN"
| "clamp_spec PInf = Fin 100"
| "clamp_spec NInf = Fin 0"
| "clamp_spec NZero = Fin 0"
| "clamp_spec (Fin q) = Fin (max 0 (min 100 q))"

text \<open>
  \<open>placeNew(pointerOffsetPx, surfaceBoxPx)\<close>:
  \<open>left = (pointerOffsetPx.x - surfaceBoxPx.left) / surfaceBoxPx.width * 100\<close>, \<open>top\<close> the
  same with the height, both clamped.
\<close>

definition placeNew_spec :: "point \<Rightarrow> rect \<Rightarrow> jsnum \<times> jsnum" where
  "placeNew_spec pointerOffsetPx surfaceBoxPx =
     (clamp_spec (js_mul (js_div (js_sub (x_p pointerOffsetPx) (left_r surfaceBoxPx))
                                 (width surfaceBoxPx)) (Fin 100)),
      clamp_spec (js_mul (js_div (js_sub (y_p pointerOffsetPx) (top_r surfaceBoxPx))
                                 (height surfaceBoxPx)) (Fin 100)))"

text \<open>
  \<open>moveExisting(currentLeft, currentTop, deltaPx, surfaceBoxPx)\<close>:
  \<open>left = currentLeft + deltaPx.x / surfaceBoxPx.width * 100\<close>, \<open>top\<close> the same with the
  height, both clamped.
\<close>

definition moveExisting_spec :: "jsnum \<Rightarrow> jsnum \<Rightarrow> point \<Rightarrow> rect \<Rightarrow> jsnum \<times> jsnum" where
  "moveExisting_spec currentLeft currentTop deltaPx surfaceBoxPx =
     (clamp_spec (js_add currentLeft
                    (js_mul (js_div (x_p deltaPx) (width surfaceBoxPx)) (Fin 100))),
      clamp_spec (js_add currentTop
                    (js_mul (js_div (y_p deltaPx) (height surfaceBoxPx)) (Fin 100))))"

text \<open>A surface box of positive width and height, a finite number, a coordinate in \<open>[0, 100]\<close>.\<close>

fun positive :: "jsnum \<Rightarrow> bool" where
  "positive (Fin q) = (0 < q)"
| "positive a = False"

definition positive_box :: "rect \<Rightarrow> bool" where
  "positive_box b = (positive (width b) \<and> positive (height b))"

fun is_finite :: "jsnum \<Rightarrow> bool" where
  "is_finite (Fin q) = True"
| "is_finite NZero = True"
| "is_finite a = False"

fun in_range :: "jsnum \<Rightarrow> bool" where
  "in_range (Fin q) = (0 \<le> q \<and> q \<le> 100)"
| "in_range a = False"

text \<open>
  The cross-store invariant: every field's \<open>assignedTo\<close> is null or the id of a filler in
  the list.
\<close>

definition live :: "filler list \<Rightarrow> string option \<Rightarrow> bool" where
  "live rs a = (case a of None \<Rightarrow> True | Some v \<Rightarrow> list_ex (\<lambda>r. id_r r = v) rs)"


text \<open>No field is assigned to the empty string: the handlers store \<^verbatim>\<open>null\<close> for it.\<close>

definition assigned_nonempty :: "app \<Rightarrow> bool" where
  "assigned_nonempty s = list_all (\<lambda>f. assignedTo f \<noteq> Some []) (placedFields s)"

text \<open>Clamping a rational to \<open>[0, 100]\<close>.\<close>

definition clampq :: "rat \<Rightarrow> rat" where
  "clampq q = max 0 (min 100 q)"

text \<open>
  The position after two moves by the same delta: the second move starts from the
  position the first one gave.
\<close>

definition moved_twice :: "jsnum \<Rightarrow> jsnum \<Rightarrow> point \<Rightarrow> rect \<Rightarrow> jsnum \<times> jsnum" where
  "moved_twice l t d b =
     moveExisting_spec (fst (moveExisting_spec l t d b)) (snd (moveExisting_spec l t d b)) d b"

text \<open>
  A pixel delta of ordinary size for a surface \<open>w\<close> pixels wide: zero, or with a ratio to
  \<open>w\<close> between \<open>2 ^ -1000\<close> and \<open>2 ^ 1000\<close> in absolute value, far from the smallest and
  the largest binary64 numbers.
\<close>

definition ordinary :: "rat \<Rightarrow> rat \<Rightarrow> bool" where
  "ordinary d w = (d = 0 \<or> (pow2 (- 1000) \<le> \<bar>d / w\<bar> \<and> \<bar>d / w\<bar> \<le> pow2 1000))"

text \<open>Two coordinates in \<open>[0, 100]\<close> that differ by at most \<open>1 / 2 ^ 45\<close>.\<close>

fun close :: "jsnum \<Rightarrow> jsnum \<Rightarrow> bool" where
  "close (Fin x) (Fin y) = (0 \<le> x \<and> x \<le> 100 \<and> 0 \<le> y \<and> y \<le> 100 \<and> \<bar>x - y\<bar> \<le> 1 / 2 ^ 45)"
| "close a b = False"

text \<open>
  A percentage so large that adding it to a position in \<open>[0, 100]\<close> leaves the range: at
  least 100, or at most -100, an infinity included.
\<close>

fun huge_pos :: "jsnum \<Rightarrow> bool" where
  "huge_pos PInf = True"
| "huge_pos (Fin p) = (100 \<le> p)"
| "huge_pos a = False"

fun huge_neg :: "jsnum \<Rightarrow> bool" where
  "huge_neg NInf = True"
| "huge_neg (Fin p) = (p \<le> - 100)"
| "huge_neg a = False"

section \<open>A session\<close>

text \<open>
  The scenario of the specification: load a one-page document, add the recipient
  \<^verbatim>\<open>a@x.com\<close>, drop a Signature field on page 1 at the pointer offset (50, 20) inside
  the surface box of width 200 and height 400 at the origin, assign the field to the
  recipient, remove the recipient.
\<close>

definition box_200_400 :: rect where
  "box_200_400 = \<lparr>left_r = Fin 0, top_r = Fin 0, width = Fin 200, height = Fin 400\<rparr>"

text \<open>A surface that is not laid out: every measure of its box is zero.\<close>

definition zero_box :: rect where
  "zero_box = \<lparr>left_r = Fin 0, top_r = Fin 0, width = Fin 0, height = Fin 0\<rparr>"

definition pointer_at :: "rat \<Rightarrow> rat \<Rightarrow> monitor" where
  "pointer_at x y = \<lparr>getDifferenceFromInitialOffset = Some \<lparr>x_p = Fin 0, y_p = Fin 0\<rparr>,
                     getClientOffset = Some \<lparr>x_p = Fin x, y_p = Fin y\<rparr>\<rparr>"

definition dragged_by :: "rat \<Rightarrow> rat \<Rightarrow> monitor" where
  "dragged_by dx dy = \<lparr>getDifferenceFromInitialOffset = Some \<lparr>x_p = Fin dx, y_p = Fin dy\<rparr>,
                       getClientOffset = Some \<lparr>x_p = Fin 120, y_p = Fin 80\<rparr>\<rparr>"

definition scenario_typed :: app where
  "scenario_typed = setNewFillerEmail ''a@x.com'' (fileLoaded 1 init_app)"

definition scenario_added :: app where
  "scenario_added = addFiller 1700000000000 scenario_typed"

definition scenario_dropped :: app where
  "scenario_dropped =
     drop_PdfPage 1 (NewItem ''Signature'') (pointer_at 50 20) (Some box_200_400) scenario_added"

definition scenario_assigned :: app where
  "scenario_assigned = handleAssignField 0 ''filler_1700000000000'' scenario_dropped"

definition scenario_removed :: app where
  "scenario_removed = removeFiller ''filler_1700000000000'' scenario_assigned"

text \<open>
  A second session: a Signature field dropped at the pointer offset (1, 0) in the same
  box, which places it at left 0.5 and top 0.
\<close>

definition scenario_half :: app where
  "scenario_half =
     drop_PdfPage 1 (NewItem ''Signature'') (pointer_at 1 0) (Some box_200_400)
       (fileLoaded 1 init_app)"

section \<open>Evaluating the arithmetic\<close>

lemma floor_rat_numeral_div [simp]:
  "\<lfloor>numeral a / numeral b :: rat\<rfloor> = numeral a div numeral b"
  using floor_divide_of_int_eq [of "numeral a" "numeral b", where ?'a = rat] by simp

lemma ceiling_rat_numeral_div [simp]:
  "\<lceil>numeral a / numeral b :: rat\<rceil> = - ((- numeral a) div numeral b)"
  using floor_divide_of_int_eq [of "- numeral a" "numeral b", where ?'a = rat]
  by (simp add: ceiling_def)

lemma bit_length_0 [simp]: "bit_length 0 = 0"
  by (simp add: bit_length.simps)

lemma bit_length_1 [simp]: "bit_length (Suc 0) = Suc 0"
  by (simp add: bit_length.simps)

lemma bit_length_numeral [simp]:
  "bit_length (numeral k) = Suc (bit_length (numeral k div 2))"
  by (subst bit_length.simps) simp

lemmas rnd_eval = rnd_def ilog2_def round_even_def pow2_def Let_def

lemmas js_eval = js_sub_def js_mul_def js_div_def Math_max_def Math_min_def is_zero_def
  is_inf_def signed_inf_def signed_zero_def

lemma string_of_nat_small [simp]: "n < 10 \<Longrightarrow> string_of_nat n = [digit n]"
  by (simp add: string_of_nat.simps)

lemma string_of_nat_numeral [simp]:
  "10 \<le> (numeral k :: nat) \<Longrightarrow>
   string_of_nat (numeral k) = string_of_nat (numeral k div 10) @ [digit (numeral k mod 10)]"
  by (subst string_of_nat.simps) simp

lemma filler_id_1700000000000:
  "''filler_'' @ string_of_nat 1700000000000 = ''filler_1700000000000''"
  by (simp add: digit_def)

lemma regex_test_a_x_com: "regex_test ''a@x.com''"
  by (simp add: js_space_def)

lemma percent_50_200: "js_mul (js_div (js_sub (Fin 50) (Fin 0)) (Fin 200)) (Fin 100) = Fin 25"
  by (simp add: js_eval rnd_eval)

lemma percent_20_400: "js_mul (js_div (js_sub (Fin 20) (Fin 0)) (Fin 400)) (Fin 100) = Fin 5"
  by (simp add: js_eval rnd_eval)

section \<open>The scenario, state by state\<close>

lemma scenario_typed_val:
  "scenario_typed = \<lparr>pdf = True, numPages = 1, placedFields = [], fillers = [],
                      newFillerEmail = ''a@x.com'', nextId = 0\<rparr>"
  by (simp add: scenario_typed_def setNewFillerEmail_def fileLoaded_def init_app_def)

lemma scenario_added_val:
  "scenario_added = \<lparr>pdf = True, numPages = 1, placedFields = [],
                      fillers = [\<lparr>id_r = ''filler_1700000000000'', email = ''a@x.com''\<rparr>],
                      newFillerEmail = [], nextId = 0\<rparr>"
  unfolding scenario_added_def scenario_typed_val addFiller_def
  using regex_test_a_x_com filler_id_1700000000000 by simp

lemma scenario_dropped_val:
  "scenario_dropped = \<lparr>pdf = True, numPages = 1,
      placedFields = [\<lparr>id_f = 0, pageNum = 1, left_f = Fin 25, top_f = Fin 5,
                       type_f = ''Signature'', assignedTo = None\<rparr>],
      fillers = [\<lparr>id_r = ''filler_1700000000000'', email = ''a@x.com''\<rparr>],
      newFillerEmail = [], nextId = 1\<rparr>"
  unfolding scenario_dropped_def scenario_added_val
  by (simp add: drop_PdfPage_def pointer_at_def box_200_400_def percent_50_200 percent_20_400
      handleDrop_def Math_max_def Math_min_def)

lemma scenario_assigned_val:
  "scenario_assigned = \<lparr>pdf = True, numPages = 1,
      placedFields = [\<lparr>id_f = 0, pageNum = 1, left_f = Fin 25, top_f = Fin 5,
                       type_f = ''Signature'', assignedTo = Some ''filler_1700000000000''\<rparr>],
      fillers = [\<lparr>id_r = ''filler_1700000000000'', email = ''a@x.com''\<rparr>],
      newFillerEmail = [], nextId = 1\<rparr>"
  unfolding scenario_assigned_def scenario_dropped_val
  by (simp add: handleAssignField_def)

lemma scenario_removed_val:
  "scenario_removed = \<lparr>pdf = True, numPages = 1,
      placedFields = [\<lparr>id_f = 0, pageNum = 1, left_f = Fin 25, top_f = Fin 5,
                       type_f = ''Signature'', assignedTo = None\<rparr>],
      fillers = [], newFillerEmail = [], nextId = 1\<rparr>"
  unfolding scenario_removed_def scenario_assigned_val
  by (simp add: removeFiller_def)

lemma reachable_scenario_typed: "reachable scenario_typed"
  unfolding scenario_typed_def
  by (rule reachable.typing [OF reachable.load [OF reachable.start]]) (simp add: fileLoaded_def)

lemma reachable_scenario_added: "reachable scenario_added"
  unfolding scenario_added_def
  by (rule reachable.add [OF reachable_scenario_typed]) (simp add: scenario_typed_val)

lemma reachable_scenario_dropped: "reachable scenario_dropped"
  unfolding scenario_dropped_def
  by (rule reachable.drop_new [OF reachable_scenario_added]) (simp_all add: scenario_added_val)

lemma reachable_scenario_assigned: "reachable scenario_assigned"
proof -
  have "reachable (handleAssignField
          (id_f \<lparr>id_f = 0, pageNum = 1, left_f = Fin 25, top_f = Fin 5,
                 type_f = ''Signature'', assignedTo = None\<rparr>)
          ''filler_1700000000000'' scenario_dropped)"
    by (rule reachable.assign [OF reachable_scenario_dropped])
       (simp_all add: scenario_dropped_val)
  then show ?thesis by (simp add: scenario_assigned_def)
qed

lemma reachable_scenario_removed: "reachable scenario_removed"
proof -
  have "reachable (removeFiller
          (id_r \<lparr>id_r = ''filler_1700000000000'', email = ''a@x.com''\<rparr>) scenario_assigned)"
    by (rule reachable.remove [OF reachable_scenario_assigned])
       (simp_all add: scenario_assigned_val)
  then show ?thesis by (simp add: scenario_removed_def)
qed

section \<open>What the handlers keep\<close>

lemma drop_PdfPage_cases:
  "drop_PdfPage pn it m cur s = s
   \<or> (\<exists>i l t. drop_PdfPage pn it m cur s = handleMoveField i l t s)
   \<or> (\<exists>ty l t. drop_PdfPage pn it m cur s = handleDrop ty pn l t s)"
proof (cases cur)
  case None
  then show ?thesis by (simp add: drop_PdfPage_def)
next
  case (Some r)
  show ?thesis
  proof (cases it)
    case (NewItem ty)
    show ?thesis
    proof (cases "getClientOffset m")
      case None
      with Some NewItem show ?thesis by (simp add: drop_PdfPage_def)
    next
      case (Some off)
      with \<open>cur = Some r\<close> NewItem have "\<exists>l t. drop_PdfPage pn it m cur s = handleDrop ty pn l t s"
        by (simp add: drop_PdfPage_def Let_def) blast
      then show ?thesis by blast
    qed
  next
    case (PlacedItem i l0 t0 ty)
    show ?thesis
    proof (cases "getDifferenceFromInitialOffset m")
      case None
      with Some PlacedItem show ?thesis by (simp add: drop_PdfPage_def)
    next
      case (Some d)
      with \<open>cur = Some r\<close> PlacedItem
      have "\<exists>l t. drop_PdfPage pn it m cur s = handleMoveField i l t s"
        by (simp add: drop_PdfPage_def Let_def) blast
      then show ?thesis by blast
    qed
  qed
qed

lemma assigned_nonempty_init: "assigned_nonempty init_app"
  by (simp add: assigned_nonempty_def init_app_def)

lemma assigned_nonempty_fileLoaded: "assigned_nonempty (fileLoaded n s)"
  by (simp add: assigned_nonempty_def fileLoaded_def)

lemma assigned_nonempty_setNewFillerEmail:
  "assigned_nonempty s \<Longrightarrow> assigned_nonempty (setNewFillerEmail e s)"
  by (simp add: assigned_nonempty_def setNewFillerEmail_def)

lemma assigned_nonempty_addFiller: "assigned_nonempty s \<Longrightarrow> assigned_nonempty (addFiller now s)"
  by (simp add: assigned_nonempty_def addFiller_def)

lemma assigned_nonempty_removeFiller:
  "assigned_nonempty s \<Longrightarrow> assigned_nonempty (removeFiller rid s)"
  by (auto simp: assigned_nonempty_def removeFiller_def list_all_iff)

lemma assigned_nonempty_handleDrop:
  "assigned_nonempty s \<Longrightarrow> assigned_nonempty (handleDrop ty pn l t s)"
  by (simp add: assigned_nonempty_def handleDrop_def)

lemma assigned_nonempty_handleMoveField:
  "assigned_nonempty s \<Longrightarrow> assigned_nonempty (handleMoveField i l t s)"
  by (auto simp: assigned_nonempty_def handleMoveField_def list_all_iff)

lemma assigned_nonempty_handleAssignField:
  "assigned_nonempty s \<Longrightarrow> assigned_nonempty (handleAssignField i v s)"
  by (auto simp: assigned_nonempty_def handleAssignField_def list_all_iff)

lemma assigned_nonempty_drop_PdfPage:
  "assigned_nonempty s \<Longrightarrow> assigned_nonempty (drop_PdfPage pn it m cur s)"
  using drop_PdfPage_cases [of pn it m cur s]
  by (auto simp: assigned_nonempty_handleDrop assigned_nonempty_handleMoveField)

lemma reachable_assigned_nonempty: "reachable s \<Longrightarrow> assigned_nonempty s"
proof (induction rule: reachable.induct)
  case start
  show ?case by (rule assigned_nonempty_init)
next
  case (load s n)
  show ?case by (rule assigned_nonempty_fileLoaded)
next
  case (typing s e)
  then show ?case by (simp add: assigned_nonempty_setNewFillerEmail)
next
  case (add s now)
  then show ?case by (simp add: assigned_nonempty_addFiller)
next
  case (remove s r)
  then show ?case by (simp add: assigned_nonempty_removeFiller)
next
  case (drop_new s pn ty m cur)
  then show ?case by (simp add: assigned_nonempty_drop_PdfPage)
next
  case (drop_placed s pn f m cur)
  then show ?case by (simp add: assigned_nonempty_drop_PdfPage)
next
  case (assign s f v)
  then show ?case by (simp add: assigned_nonempty_handleAssignField)
qed

lemma falsy_iff_None: "a \<noteq> Some [] \<Longrightarrow> falsy a = (a = None)"
  by (cases a) (auto simp: falsy_def)

lemma unassigned_iff:
  assumes "assigned_nonempty s"
  shows "list_ex (\<lambda>f. falsy (assignedTo f)) (placedFields s)
         = (\<not> list_all (\<lambda>f. assignedTo f \<noteq> None) (placedFields s))"
  using assms
  by (auto simp: assigned_nonempty_def list_all_iff list_ex_iff falsy_iff_None)

section \<open>Readiness to send\<close>

text \<open>
  Claim C1. In every state in which no field is assigned to the empty string (the empty
  string is the select's empty choice and no filler's id; \<open>reachable_assigned_nonempty\<close>
  shows that a session never stores it), the Send Document button is enabled exactly when
  the fields are non-empty, the fillers are non-empty and every field has a non-null
  \<open>assignedTo\<close>; \<open>handleSend\<close> builds the payload in exactly these states, that is when
  none of its three failure causes (no field, some field unassigned, no filler) holds,
  and alerts in every other state. The state need not be one a session reaches: each of
  the three causes decides in some state.
\<close>

theorem isReadyToSend_iff:
  assumes "assigned_nonempty s"
  shows "(\<not> send_disabled s) = isReadyToSend_spec (placedFields s) (fillers s)
       \<and> (handleSend s = Sent (dataToSend s)) = isReadyToSend_spec (placedFields s) (fillers s)
       \<and> (isReadyToSend_spec (placedFields s) (fillers s)
            = (\<not> (placedFields s = [] \<or> (\<exists>f\<in>set (placedFields s). assignedTo f = None)
                  \<or> fillers s = [])))
       \<and> (\<not> isReadyToSend_spec (placedFields s) (fillers s) \<longrightarrow> (\<exists>msg. handleSend s = Alert msg))"
proof -
  have un: "list_ex (\<lambda>f. falsy (assignedTo f)) (placedFields s)
            = (\<not> list_all (\<lambda>f. assignedTo f \<noteq> None) (placedFields s))"
    using assms by (rule unassigned_iff)
  have a: "(\<not> send_disabled s) = isReadyToSend_spec (placedFields s) (fillers s)"
    by (auto simp: send_disabled_def isReadyToSend_spec_def un)
  have b: "(handleSend s = Sent (dataToSend s)) = isReadyToSend_spec (placedFields s) (fillers s)"
    by (auto simp: handleSend_def isReadyToSend_spec_def un Let_def)
  have c: "isReadyToSend_spec (placedFields s) (fillers s)
            = (\<not> (placedFields s = [] \<or> (\<exists>f\<in>set (placedFields s). assignedTo f = None)
                  \<or> fillers s = []))"
    by (auto simp: isReadyToSend_spec_def list_all_iff)
  have d: "\<not> isReadyToSend_spec (placedFields s) (fillers s) \<longrightarrow> (\<exists>msg. handleSend s = Alert msg)"
    by (auto simp: handleSend_def isReadyToSend_spec_def un Let_def)
  from a b c d show ?thesis by blast
qed

theorem isReadyToSend_iff_witness:
  "assigned_nonempty scenario_assigned \<and> \<not> send_disabled scenario_assigned
   \<and> handleSend scenario_assigned = Sent (dataToSend scenario_assigned)
   \<and> assigned_nonempty (scenario_assigned\<lparr>fillers := []\<rparr>)
   \<and> send_disabled (scenario_assigned\<lparr>fillers := []\<rparr>)
   \<and> handleSend (scenario_assigned\<lparr>fillers := []\<rparr>) = Alert ''Please add at least one filler.''
   \<and> assigned_nonempty scenario_removed \<and> send_disabled scenario_removed
   \<and> handleSend scenario_removed = Alert ''Please assign all placed fields to a filler.''
   \<and> assigned_nonempty scenario_added \<and> send_disabled scenario_added
   \<and> handleSend scenario_added = Alert ''Please place at least one field on the document.''"
proof -
  have n1: "assigned_nonempty scenario_assigned"
    by (rule reachable_assigned_nonempty [OF reachable_scenario_assigned])
  have n2: "assigned_nonempty (scenario_assigned\<lparr>fillers := []\<rparr>)"
    by (simp add: assigned_nonempty_def scenario_assigned_val)
  have n3: "assigned_nonempty scenario_removed"
    by (rule reachable_assigned_nonempty [OF reachable_scenario_removed])
  have n4: "assigned_nonempty scenario_added"
    by (rule reachable_assigned_nonempty [OF reachable_scenario_added])
  have r1: "isReadyToSend_spec (placedFields scenario_assigned) (fillers scenario_assigned)"
    by (simp add: scenario_assigned_val isReadyToSend_spec_def)
  have r2: "\<not> isReadyToSend_spec (placedFields (scenario_assigned\<lparr>fillers := []\<rparr>))
                (fillers (scenario_assigned\<lparr>fillers := []\<rparr>))"
    by (simp add: isReadyToSend_spec_def)
  have r3: "\<not> isReadyToSend_spec (placedFields scenario_removed) (fillers scenario_removed)"
    by (simp add: scenario_removed_val isReadyToSend_spec_def)
  have r4: "\<not> isReadyToSend_spec (placedFields scenario_added) (fillers scenario_added)"
    by (simp add: scenario_added_val isReadyToSend_spec_def)
  have m2: "handleSend (scenario_assigned\<lparr>fillers := []\<rparr>) = Alert ''Please add at least one filler.''"
    by (simp add: handleSend_def scenario_assigned_val falsy_def)
  have m3: "handleSend scenario_removed = Alert ''Please assign all placed fields to a filler.''"
    by (simp add: handleSend_def scenario_removed_val falsy_def)
  have m4: "handleSend scenario_added = Alert ''Please place at least one field on the document.''"
    by (simp add: handleSend_def scenario_added_val)
  show ?thesis
    using isReadyToSend_iff [OF n1] isReadyToSend_iff [OF n2] isReadyToSend_iff [OF n3]
      isReadyToSend_iff [OF n4] n1 n2 n3 n4 r1 r2 r3 r4 m2 m3 m4
    by blast
qed

section \<open>Removing a filler\<close>

lemma count_changed:
  "length (filter (\<lambda>i. P (xs ! i)) [0..<length xs]) = length (filter P xs)"
proof -
  have "filter P xs = filter P (map ((!) xs) [0..<length xs])"
    by (simp add: map_nth)
  also have "\<dots> = map ((!) xs) (filter (P \<circ> (!) xs) [0..<length xs])"
    by (simp add: filter_map)
  finally have "length (filter P xs) = length (filter (P \<circ> (!) xs) [0..<length xs])"
    by simp
  then show ?thesis by (simp add: comp_def)
qed

lemma unassign_changes: "(f\<lparr>assignedTo := None\<rparr> \<noteq> f) = (assignedTo f \<noteq> None)"
proof
  assume "f\<lparr>assignedTo := None\<rparr> \<noteq> f"
  then show "assignedTo f \<noteq> None" by (cases f) auto
next
  assume a: "assignedTo f \<noteq> None"
  show "f\<lparr>assignedTo := None\<rparr> \<noteq> f"
  proof
    assume "f\<lparr>assignedTo := None\<rparr> = f"
    then have "assignedTo (f\<lparr>assignedTo := None\<rparr>) = assignedTo f" by simp
    with a show False by simp
  qed
qed

text \<open>
  Claim C4. Removing a filler whose id \<open>k\<close> fields refer to, in any state: the field list
  keeps its length and order; each of those \<open>k\<close> fields is the old field with
  \<open>assignedTo\<close> set to null, with the same id, page, position and type; every other field
  is unchanged; the fields that changed are exactly \<open>k\<close>; no field of the resulting state
  refers to the removed id; the filler list loses the fillers of that id and the rest of
  the state is unchanged. The handler is a single step of the state, so no state in
  between exists.
\<close>

theorem removeFiller_frame:
  "length (placedFields (removeFiller rid s)) = length (placedFields s)
   \<and> (\<forall>i<length (placedFields s).
         (assignedTo (placedFields s ! i) = Some rid \<longrightarrow>
            placedFields (removeFiller rid s) ! i = (placedFields s ! i)\<lparr>assignedTo := None\<rparr>)
       \<and> (assignedTo (placedFields s ! i) \<noteq> Some rid \<longrightarrow>
            placedFields (removeFiller rid s) ! i = placedFields s ! i)
       \<and> id_f (placedFields (removeFiller rid s) ! i) = id_f (placedFields s ! i)
       \<and> pageNum (placedFields (removeFiller rid s) ! i) = pageNum (placedFields s ! i)
       \<and> left_f (placedFields (removeFiller rid s) ! i) = left_f (placedFields s ! i)
       \<and> top_f (placedFields (removeFiller rid s) ! i) = top_f (placedFields s ! i)
       \<and> type_f (placedFields (removeFiller rid s) ! i) = type_f (placedFields s ! i))
   \<and> length (filter (\<lambda>i. placedFields (removeFiller rid s) ! i \<noteq> placedFields s ! i)
               [0..<length (placedFields s)])
       = length (filter (\<lambda>f. assignedTo f = Some rid) (placedFields s))
   \<and> (\<forall>f\<in>set (placedFields (removeFiller rid s)). assignedTo f \<noteq> Some rid)
   \<and> fillers (removeFiller rid s) = filter (\<lambda>r. id_r r \<noteq> rid) (fillers s)
   \<and> pdf (removeFiller rid s) = pdf s \<and> numPages (removeFiller rid s) = numPages s
   \<and> newFillerEmail (removeFiller rid s) = newFillerEmail s
   \<and> nextId (removeFiller rid s) = nextId s"
proof -
  let ?u = "\<lambda>f. if assignedTo f = Some rid then f\<lparr>assignedTo := None\<rparr> else f"
  have pf: "placedFields (removeFiller rid s) = map ?u (placedFields s)"
    by (simp add: removeFiller_def)
  have len: "length (placedFields (removeFiller rid s)) = length (placedFields s)"
    by (simp add: pf)
  have each: "\<forall>i<length (placedFields s).
         (assignedTo (placedFields s ! i) = Some rid \<longrightarrow>
            placedFields (removeFiller rid s) ! i = (placedFields s ! i)\<lparr>assignedTo := None\<rparr>)
       \<and> (assignedTo (placedFields s ! i) \<noteq> Some rid \<longrightarrow>
            placedFields (removeFiller rid s) ! i = placedFields s ! i)
       \<and> id_f (placedFields (removeFiller rid s) ! i) = id_f (placedFields s ! i)
       \<and> pageNum (placedFields (removeFiller rid s) ! i) = pageNum (placedFields s ! i)
       \<and> left_f (placedFields (removeFiller rid s) ! i) = left_f (placedFields s ! i)
       \<and> top_f (placedFields (removeFiller rid s) ! i) = top_f (placedFields s ! i)
       \<and> type_f (placedFields (removeFiller rid s) ! i) = type_f (placedFields s ! i)"
    by (simp add: pf)
  have ch: "\<And>f. (?u f \<noteq> f) = (assignedTo f = Some rid)"
    by (simp add: unassign_changes)
  have "filter (\<lambda>i. placedFields (removeFiller rid s) ! i \<noteq> placedFields s ! i)
               [0..<length (placedFields s)]
        = filter (\<lambda>i. assignedTo (placedFields s ! i) = Some rid) [0..<length (placedFields s)]"
    by (rule filter_cong) (simp_all add: pf ch)
  then have cnt: "length (filter (\<lambda>i. placedFields (removeFiller rid s) ! i \<noteq> placedFields s ! i)
               [0..<length (placedFields s)])
       = length (filter (\<lambda>f. assignedTo f = Some rid) (placedFields s))"
    using count_changed [of "\<lambda>f. assignedTo f = Some rid" "placedFields s"] by simp
  have gone: "\<forall>f\<in>set (placedFields (removeFiller rid s)). assignedTo f \<noteq> Some rid"
    by (auto simp: pf)
  have other: "fillers (removeFiller rid s) = filter (\<lambda>r. id_r r \<noteq> rid) (fillers s)
     \<and> pdf (removeFiller rid s) = pdf s \<and> numPages (removeFiller rid s) = numPages s
     \<and> newFillerEmail (removeFiller rid s) = newFillerEmail s
     \<and> nextId (removeFiller rid s) = nextId s"
    by (simp add: removeFiller_def)
  from len each cnt gone other show ?thesis by blast
qed

theorem removeFiller_frame_witness:
  "length (filter (\<lambda>f. assignedTo f = Some ''filler_1700000000000'') (placedFields scenario_assigned)) = 1
   \<and> placedFields scenario_removed ! 0 = (placedFields scenario_assigned ! 0)\<lparr>assignedTo := None\<rparr>
   \<and> length (filter (\<lambda>i. placedFields scenario_removed ! i \<noteq> placedFields scenario_assigned ! i)
               [0..<length (placedFields scenario_assigned)]) = 1
   \<and> fillers scenario_removed = []"
  using removeFiller_frame [of "''filler_1700000000000''" scenario_assigned,
      folded scenario_removed_def]
  by (simp add: scenario_removed_val scenario_assigned_val)

section \<open>Adding a filler\<close>

lemma regex_test_b_x_com: "regex_test ''b@x.com''"
  by (simp add: js_space_def)

text \<open>
  Claim C6. \<open>addFiller\<close> rejects, leaving the whole state and so the filler list as it
  was, exactly when the e-mail is empty, fails the shape test, or equals the e-mail of a
  filler in the list (equality of strings, so case matters); otherwise it appends one
  filler with that e-mail. Adding \<^verbatim>\<open>a@x.com\<close> a second time is rejected and the list
  keeps its single filler.
\<close>

theorem addFiller_rejected_iff:
  "(addFiller now s = s)
     = (newFillerEmail s = [] \<or> \<not> regex_test (newFillerEmail s)
        \<or> (\<exists>r\<in>set (fillers s). email r = newFillerEmail s))
   \<and> (fillers (addFiller now s) = fillers s)
     = (newFillerEmail s = [] \<or> \<not> regex_test (newFillerEmail s)
        \<or> (\<exists>r\<in>set (fillers s). email r = newFillerEmail s))
   \<and> (\<not> (newFillerEmail s = [] \<or> \<not> regex_test (newFillerEmail s)
          \<or> (\<exists>r\<in>set (fillers s). email r = newFillerEmail s)) \<longrightarrow>
        fillers (addFiller now s)
          = fillers s @ [\<lparr>id_r = ''filler_'' @ string_of_nat now, email = newFillerEmail s\<rparr>])
   \<and> addFiller t2 (setNewFillerEmail ''a@x.com''
          (addFiller t1 (setNewFillerEmail ''a@x.com'' (fileLoaded n s0))))
       = setNewFillerEmail ''a@x.com''
          (addFiller t1 (setNewFillerEmail ''a@x.com'' (fileLoaded n s0)))
   \<and> length (fillers (addFiller t2 (setNewFillerEmail ''a@x.com''
          (addFiller t1 (setNewFillerEmail ''a@x.com'' (fileLoaded n s0)))))) = 1"
proof -
  let ?rej = "newFillerEmail s = [] \<or> \<not> regex_test (newFillerEmail s)
        \<or> (\<exists>r\<in>set (fillers s). email r = newFillerEmail s)"
  have acc: "\<not> ?rej \<Longrightarrow> fillers (addFiller now s)
          = fillers s @ [\<lparr>id_r = ''filler_'' @ string_of_nat now, email = newFillerEmail s\<rparr>]"
    by (simp add: addFiller_def list_ex_iff)
  have rej: "?rej \<Longrightarrow> addFiller now s = s"
    by (auto simp: addFiller_def list_ex_iff)
  have a: "(addFiller now s = s) = ?rej"
  proof
    assume e: "addFiller now s = s"
    show ?rej
    proof (rule ccontr)
      assume "\<not> ?rej"
      from acc [OF this] e show False by simp
    qed
  qed (rule rej)
  have b: "(fillers (addFiller now s) = fillers s) = ?rej"
  proof
    assume e: "fillers (addFiller now s) = fillers s"
    show ?rej
    proof (rule ccontr)
      assume "\<not> ?rej"
      from acc [OF this] e show False by simp
    qed
  next
    assume ?rej
    then show "fillers (addFiller now s) = fillers s" by (simp add: rej)
  qed
  let ?once = "addFiller t1 (setNewFillerEmail ''a@x.com'' (fileLoaded n s0))"
  have once: "fillers ?once = [\<lparr>id_r = ''filler_'' @ string_of_nat t1, email = ''a@x.com''\<rparr>]"
    using regex_test_a_x_com
    by (simp add: addFiller_def setNewFillerEmail_def fileLoaded_def)
  have twice: "addFiller t2 (setNewFillerEmail ''a@x.com'' ?once)
                = setNewFillerEmail ''a@x.com'' ?once"
    using once by (simp add: addFiller_def [of t2] setNewFillerEmail_def)
  have size: "length (fillers (addFiller t2 (setNewFillerEmail ''a@x.com'' ?once))) = 1"
    unfolding twice using once by (simp add: setNewFillerEmail_def)
  from a b acc twice size show ?thesis by blast
qed

theorem addFiller_rejected_iff_witness:
  "addFiller 1700000000000 scenario_typed \<noteq> scenario_typed
   \<and> fillers scenario_added = [\<lparr>id_r = ''filler_1700000000000'', email = ''a@x.com''\<rparr>]
   \<and> addFiller 1700000000001 (setNewFillerEmail ''a@x.com'' scenario_added)
       = setNewFillerEmail ''a@x.com'' scenario_added
   \<and> length (fillers (addFiller 1700000000001 (setNewFillerEmail ''A@x.com'' scenario_added))) = 2"
proof -
  have typed: "\<not> (newFillerEmail scenario_typed = [] \<or> \<not> regex_test (newFillerEmail scenario_typed)
          \<or> (\<exists>r\<in>set (fillers scenario_typed). email r = newFillerEmail scenario_typed))"
    using regex_test_a_x_com by (simp add: scenario_typed_val)
  have again: "\<exists>r\<in>set (fillers (setNewFillerEmail ''a@x.com'' scenario_added)).
                 email r = newFillerEmail (setNewFillerEmail ''a@x.com'' scenario_added)"
    by (simp add: scenario_added_val setNewFillerEmail_def)
  have upper: "\<not> (newFillerEmail (setNewFillerEmail ''A@x.com'' scenario_added) = []
          \<or> \<not> regex_test (newFillerEmail (setNewFillerEmail ''A@x.com'' scenario_added))
          \<or> (\<exists>r\<in>set (fillers (setNewFillerEmail ''A@x.com'' scenario_added)).
                email r = newFillerEmail (setNewFillerEmail ''A@x.com'' scenario_added)))"
    by (simp add: scenario_added_val setNewFillerEmail_def js_space_def)
  have len: "length (fillers (setNewFillerEmail ''A@x.com'' scenario_added)) = 1"
    by (simp add: scenario_added_val setNewFillerEmail_def)
  have first: "addFiller 1700000000000 scenario_typed \<noteq> scenario_typed"
    using addFiller_rejected_iff [of 1700000000000 scenario_typed, THEN conjunct1] typed
    by blast
  have added: "fillers scenario_added = [\<lparr>id_r = ''filler_1700000000000'', email = ''a@x.com''\<rparr>]"
    by (simp add: scenario_added_val)
  have second: "addFiller 1700000000001 (setNewFillerEmail ''a@x.com'' scenario_added)
       = setNewFillerEmail ''a@x.com'' scenario_added"
    using addFiller_rejected_iff [of 1700000000001 "setNewFillerEmail ''a@x.com'' scenario_added",
        THEN conjunct1] again
    by blast
  have "fillers (addFiller 1700000000001 (setNewFillerEmail ''A@x.com'' scenario_added))
        = fillers (setNewFillerEmail ''A@x.com'' scenario_added)
          @ [\<lparr>id_r = ''filler_'' @ string_of_nat 1700000000001,
              email = newFillerEmail (setNewFillerEmail ''A@x.com'' scenario_added)\<rparr>]"
    using addFiller_rejected_iff [of 1700000000001 "setNewFillerEmail ''A@x.com'' scenario_added",
        THEN conjunct2, THEN conjunct2, THEN conjunct1] upper
    by blast
  then have third:
    "length (fillers (addFiller 1700000000001 (setNewFillerEmail ''A@x.com'' scenario_added))) = 2"
    using len by simp
  from first added second third show ?thesis by blast
qed

section \<open>The payload\<close>

text \<open>
  Claim C7. For every state, the payload holds the filler list as it is and one entry per
  placed field, in order: the entry at each position has the page number, position, type
  and assignment of the field at that position. The field ids do not reach the payload:
  its entries have no id attribute, and renumbering the fields in any way leaves the
  payload the same. The payload \<open>handleSend\<close> builds is this one.
\<close>

theorem dataToSend_payload:
  "fillers_s (dataToSend s) = fillers s
   \<and> length (fields_s (dataToSend s)) = length (placedFields s)
   \<and> (\<forall>i<length (placedFields s).
         pageNum_s (fields_s (dataToSend s) ! i) = pageNum (placedFields s ! i)
       \<and> left_s (fields_s (dataToSend s) ! i) = left_f (placedFields s ! i)
       \<and> top_s (fields_s (dataToSend s) ! i) = top_f (placedFields s ! i)
       \<and> type_s (fields_s (dataToSend s) ! i) = type_f (placedFields s ! i)
       \<and> assignedTo_s (fields_s (dataToSend s) ! i) = assignedTo (placedFields s ! i))
   \<and> dataToSend (s\<lparr>placedFields := map (id_f_update g) (placedFields s)\<rparr>) = dataToSend s
   \<and> (\<forall>p. handleSend s = Sent p \<longrightarrow> p = dataToSend s)"
proof -
  have a: "fillers_s (dataToSend s) = fillers s
      \<and> length (fields_s (dataToSend s)) = length (placedFields s)"
    by (simp add: dataToSend_def)
  have b: "\<forall>i<length (placedFields s).
         pageNum_s (fields_s (dataToSend s) ! i) = pageNum (placedFields s ! i)
       \<and> left_s (fields_s (dataToSend s) ! i) = left_f (placedFields s ! i)
       \<and> top_s (fields_s (dataToSend s) ! i) = top_f (placedFields s ! i)
       \<and> type_s (fields_s (dataToSend s) ! i) = type_f (placedFields s ! i)
       \<and> assignedTo_s (fields_s (dataToSend s) ! i) = assignedTo (placedFields s ! i)"
    by (simp add: dataToSend_def rest_def)
  have c: "dataToSend (s\<lparr>placedFields := map (id_f_update g) (placedFields s)\<rparr>) = dataToSend s"
    by (simp add: dataToSend_def rest_def comp_def)
  have d: "\<forall>p. handleSend s = Sent p \<longrightarrow> p = dataToSend s"
    by (simp add: handleSend_def Let_def)
  from a b c d show ?thesis by blast
qed

theorem dataToSend_payload_witness:
  "handleSend scenario_assigned = Sent (dataToSend scenario_assigned)
   \<and> dataToSend scenario_assigned
      = \<lparr>fillers_s = [\<lparr>id_r = ''filler_1700000000000'', email = ''a@x.com''\<rparr>],
         fields_s = [\<lparr>pageNum_s = 1, left_s = Fin 25, top_s = Fin 5, type_s = ''Signature'',
                      assignedTo_s = Some ''filler_1700000000000''\<rparr>]\<rparr>
   \<and> pageNum_s (fields_s (dataToSend scenario_assigned) ! 0) = 1
   \<and> length (fields_s (dataToSend scenario_assigned)) = 1"
proof -
  have sent: "handleSend scenario_assigned = Sent (dataToSend scenario_assigned)"
    by (simp add: handleSend_def scenario_assigned_val falsy_def)
  have val: "dataToSend scenario_assigned
      = \<lparr>fillers_s = [\<lparr>id_r = ''filler_1700000000000'', email = ''a@x.com''\<rparr>],
         fields_s = [\<lparr>pageNum_s = 1, left_s = Fin 25, top_s = Fin 5, type_s = ''Signature'',
                      assignedTo_s = Some ''filler_1700000000000''\<rparr>]\<rparr>"
    by (simp add: dataToSend_def rest_def scenario_assigned_val)
  have len: "length (placedFields scenario_assigned) = 1"
    by (simp add: scenario_assigned_val)
  have "\<forall>i<length (placedFields scenario_assigned).
         pageNum_s (fields_s (dataToSend scenario_assigned) ! i)
           = pageNum (placedFields scenario_assigned ! i)"
    using dataToSend_payload [of scenario_assigned, THEN conjunct2, THEN conjunct2, THEN conjunct1]
    by blast
  then have "pageNum_s (fields_s (dataToSend scenario_assigned) ! 0)
           = pageNum (placedFields scenario_assigned ! 0)"
    using len by simp
  then have page: "pageNum_s (fields_s (dataToSend scenario_assigned) ! 0) = 1"
    by (simp add: scenario_assigned_val)
  have "length (fields_s (dataToSend scenario_assigned)) = length (placedFields scenario_assigned)"
    using dataToSend_payload [of scenario_assigned, THEN conjunct2, THEN conjunct1] .
  then have n: "length (fields_s (dataToSend scenario_assigned)) = 1"
    using len by simp
  from sent val page n show ?thesis by blast
qed

section \<open>Filler ids\<close>

text \<open>
  Claim C10, evaluated where it fails. Two fillers added while \<^verbatim>\<open>Date.now()\<close> returns the
  same millisecond get the same id, and removing that id removes both.
\<close>

theorem addFiller_same_millisecond:
  "fillers (addFiller 1700000000000 (setNewFillerEmail ''b@x.com'' scenario_added))
     = [\<lparr>id_r = ''filler_1700000000000'', email = ''a@x.com''\<rparr>,
        \<lparr>id_r = ''filler_1700000000000'', email = ''b@x.com''\<rparr>]
   \<and> fillers (removeFiller ''filler_1700000000000''
        (addFiller 1700000000000 (setNewFillerEmail ''b@x.com'' scenario_added))) = []"
  using regex_test_b_x_com filler_id_1700000000000
  by (simp add: addFiller_def setNewFillerEmail_def scenario_added_val removeFiller_def)

section \<open>Clamping and the special values\<close>

lemma clamp_code: "Math_max (Fin 0) (Math_min (Fin 100) v) = clamp_spec v"
  by (cases v) (auto simp: Math_max_def Math_min_def max_def min_def)

lemma rnd_not_NaN: "rnd q \<noteq> NaN"
  by (simp add: rnd_def Let_def)

lemma js_neg_finite: "is_finite b \<Longrightarrow> is_finite (js_neg b)"
  by (cases b) auto

lemma js_add_not_NaN: "is_finite a \<Longrightarrow> b \<noteq> NaN \<Longrightarrow> js_add a b \<noteq> NaN"
  by (cases a; cases b) (auto simp: rnd_not_NaN)

lemma is_finite_not_NaN: "is_finite a \<Longrightarrow> a \<noteq> NaN"
  by (cases a) auto

lemma js_sub_not_NaN: "is_finite a \<Longrightarrow> is_finite b \<Longrightarrow> js_sub a b \<noteq> NaN"
  unfolding js_sub_def
  by (rule js_add_not_NaN) (auto dest: js_neg_finite is_finite_not_NaN)

lemma js_div_not_NaN: "a \<noteq> NaN \<Longrightarrow> positive w \<Longrightarrow> js_div a w \<noteq> NaN"
  by (cases w) (auto simp: js_div_def is_inf_def is_zero_def signed_inf_def signed_zero_def
      rnd_not_NaN)

lemma js_mul_100_not_NaN: "a \<noteq> NaN \<Longrightarrow> js_mul a (Fin 100) \<noteq> NaN"
  by (auto simp: js_mul_def is_inf_def is_zero_def signed_inf_def signed_zero_def rnd_not_NaN)

lemma clamp_spec_in_range: "v \<noteq> NaN \<Longrightarrow> in_range (clamp_spec v)"
  by (cases v) auto

lemma percent_not_NaN: "a \<noteq> NaN \<Longrightarrow> positive w \<Longrightarrow> js_mul (js_div a w) (Fin 100) \<noteq> NaN"
  by (rule js_mul_100_not_NaN) (rule js_div_not_NaN)

section \<open>Placing a new field\<close>

text \<open>
  Claim C2. For a drop from the sidebar on a surface box of positive width and height,
  the handler appends the field whose position is \<open>placeNew\<close> of the pointer offset and
  the box: \<open>(offset.x - box.left) / box.width * 100\<close> and
  \<open>(offset.y - box.top) / box.height * 100\<close>, each clamped to \<open>[0, 100]\<close>. When the offset
  and the corner of the box are finite numbers, both coordinates are numbers from 0 to
  100. The pointer offset (50, 20) in the box of width 200 and height 400 at the origin
  gives left 25 and top 5.
\<close>

theorem placeNew_drop:
  assumes "positive_box b" and "getClientOffset m = Some off"
  shows "drop_PdfPage pn (NewItem ty) m (Some b) s
           = handleDrop ty pn (fst (placeNew_spec off b)) (snd (placeNew_spec off b)) s
       \<and> placedFields (drop_PdfPage pn (NewItem ty) m (Some b) s)
           = placedFields s @
             [\<lparr>id_f = nextId s, pageNum = pn, left_f = fst (placeNew_spec off b),
               top_f = snd (placeNew_spec off b), type_f = ty, assignedTo = None\<rparr>]
       \<and> (is_finite (x_p off) \<and> is_finite (left_r b) \<longrightarrow> in_range (fst (placeNew_spec off b)))
       \<and> (is_finite (y_p off) \<and> is_finite (top_r b) \<longrightarrow> in_range (snd (placeNew_spec off b)))
       \<and> placeNew_spec \<lparr>x_p = Fin 50, y_p = Fin 20\<rparr> box_200_400 = (Fin 25, Fin 5)"
proof -
  have eq: "drop_PdfPage pn (NewItem ty) m (Some b) s
           = handleDrop ty pn (fst (placeNew_spec off b)) (snd (placeNew_spec off b)) s"
    using assms(2) by (simp add: drop_PdfPage_def placeNew_spec_def clamp_code)
  have fields: "placedFields (drop_PdfPage pn (NewItem ty) m (Some b) s)
           = placedFields s @
             [\<lparr>id_f = nextId s, pageNum = pn, left_f = fst (placeNew_spec off b),
               top_f = snd (placeNew_spec off b), type_f = ty, assignedTo = None\<rparr>]"
    unfolding eq by (simp add: handleDrop_def)
  have w: "positive (width b)" and h: "positive (height b)"
    using assms(1) by (simp_all add: positive_box_def)
  have x: "is_finite (x_p off) \<and> is_finite (left_r b) \<longrightarrow> in_range (fst (placeNew_spec off b))"
    using clamp_spec_in_range [OF percent_not_NaN [OF js_sub_not_NaN w]]
    by (simp add: placeNew_spec_def)
  have y: "is_finite (y_p off) \<and> is_finite (top_r b) \<longrightarrow> in_range (snd (placeNew_spec off b))"
    using clamp_spec_in_range [OF percent_not_NaN [OF js_sub_not_NaN h]]
    by (simp add: placeNew_spec_def)
  have ex: "placeNew_spec \<lparr>x_p = Fin 50, y_p = Fin 20\<rparr> box_200_400 = (Fin 25, Fin 5)"
    by (simp add: placeNew_spec_def box_200_400_def percent_50_200 percent_20_400)
  from eq fields x y ex show ?thesis by blast
qed

theorem placeNew_drop_witness:
  "positive_box box_200_400
   \<and> getClientOffset (pointer_at 50 20) = Some \<lparr>x_p = Fin 50, y_p = Fin 20\<rparr>
   \<and> placedFields (drop_PdfPage 1 (NewItem ''Signature'') (pointer_at 50 20) (Some box_200_400)
         scenario_added)
       = [\<lparr>id_f = 0, pageNum = 1, left_f = Fin 25, top_f = Fin 5, type_f = ''Signature'',
           assignedTo = None\<rparr>]"
proof -
  have b: "positive_box box_200_400"
    by (simp add: positive_box_def box_200_400_def)
  have m: "getClientOffset (pointer_at 50 20) = Some \<lparr>x_p = Fin 50, y_p = Fin 20\<rparr>"
    by (simp add: pointer_at_def)
  note t = placeNew_drop [OF b m, of 1 "''Signature''" scenario_added]
  have "placedFields (drop_PdfPage 1 (NewItem ''Signature'') (pointer_at 50 20) (Some box_200_400)
         scenario_added)
       = placedFields scenario_added @
             [\<lparr>id_f = nextId scenario_added, pageNum = 1,
               left_f = fst (placeNew_spec \<lparr>x_p = Fin 50, y_p = Fin 20\<rparr> box_200_400),
               top_f = snd (placeNew_spec \<lparr>x_p = Fin 50, y_p = Fin 20\<rparr> box_200_400),
               type_f = ''Signature'', assignedTo = None\<rparr>]"
    using t by blast
  moreover have "placeNew_spec \<lparr>x_p = Fin 50, y_p = Fin 20\<rparr> box_200_400 = (Fin 25, Fin 5)"
    using t by blast
  ultimately have "placedFields (drop_PdfPage 1 (NewItem ''Signature'') (pointer_at 50 20)
         (Some box_200_400) scenario_added)
       = [\<lparr>id_f = 0, pageNum = 1, left_f = Fin 25, top_f = Fin 5, type_f = ''Signature'',
           assignedTo = None\<rparr>]"
    by (simp add: scenario_added_val)
  with b m show ?thesis by blast
qed

section \<open>Moving a placed field\<close>

text \<open>
  Claim C3. For a drop of a placed field on a surface box of positive width and height,
  the handler moves the fields of the item's id to \<open>moveExisting\<close> of the item's position,
  the difference from the initial offset and the box:
  \<open>left + delta.x / box.width * 100\<close> and \<open>top + delta.y / box.height * 100\<close>, each
  clamped to \<open>[0, 100]\<close>. The result depends on the difference between drag start and drop
  only: the pointer's offset at the drop and the corner of the box do not enter it. When
  the item's position and the difference are finite numbers, both coordinates are numbers
  from 0 to 100.
\<close>

theorem moveExisting_drop:
  assumes "positive_box b" and "getDifferenceFromInitialOffset m = Some d"
  shows "drop_PdfPage pn (PlacedItem i l t ty) m (Some b) s
           = handleMoveField i (fst (moveExisting_spec l t d b)) (snd (moveExisting_spec l t d b)) s
       \<and> drop_PdfPage pn (PlacedItem i l t ty) (m\<lparr>getClientOffset := c\<rparr>)
             (Some (b\<lparr>left_r := bl, top_r := bt\<rparr>)) s
           = drop_PdfPage pn (PlacedItem i l t ty) m (Some b) s
       \<and> (is_finite l \<and> is_finite (x_p d) \<longrightarrow> in_range (fst (moveExisting_spec l t d b)))
       \<and> (is_finite t \<and> is_finite (y_p d) \<longrightarrow> in_range (snd (moveExisting_spec l t d b)))"
proof -
  have eq: "drop_PdfPage pn (PlacedItem i l t ty) m (Some b) s
           = handleMoveField i (fst (moveExisting_spec l t d b)) (snd (moveExisting_spec l t d b)) s"
    using assms(2) by (simp add: drop_PdfPage_def moveExisting_spec_def clamp_code Let_def)
  have ind: "drop_PdfPage pn (PlacedItem i l t ty) (m\<lparr>getClientOffset := c\<rparr>)
             (Some (b\<lparr>left_r := bl, top_r := bt\<rparr>)) s
           = drop_PdfPage pn (PlacedItem i l t ty) m (Some b) s"
    using assms(2) by (simp add: drop_PdfPage_def Let_def)
  have w: "positive (width b)" and h: "positive (height b)"
    using assms(1) by (simp_all add: positive_box_def)
  have x: "is_finite l \<and> is_finite (x_p d) \<longrightarrow> in_range (fst (moveExisting_spec l t d b))"
    using clamp_spec_in_range [OF js_add_not_NaN [OF _ percent_not_NaN [OF is_finite_not_NaN w]]]
    by (simp add: moveExisting_spec_def)
  have y: "is_finite t \<and> is_finite (y_p d) \<longrightarrow> in_range (snd (moveExisting_spec l t d b))"
    using clamp_spec_in_range [OF js_add_not_NaN [OF _ percent_not_NaN [OF is_finite_not_NaN h]]]
    by (simp add: moveExisting_spec_def)
  from eq ind x y show ?thesis by blast
qed

theorem moveExisting_drop_witness:
  "positive_box box_200_400
   \<and> getDifferenceFromInitialOffset (dragged_by 50 20) = Some \<lparr>x_p = Fin 50, y_p = Fin 20\<rparr>
   \<and> placedFields (drop_PdfPage 1 (PlacedItem 0 (Fin 25) (Fin 5) ''Signature'') (dragged_by 50 20)
         (Some box_200_400) scenario_assigned)
       = [\<lparr>id_f = 0, pageNum = 1, left_f = Fin 50, top_f = Fin 10, type_f = ''Signature'',
           assignedTo = Some ''filler_1700000000000''\<rparr>]"
proof -
  have b: "positive_box box_200_400"
    by (simp add: positive_box_def box_200_400_def)
  have m: "getDifferenceFromInitialOffset (dragged_by 50 20) = Some \<lparr>x_p = Fin 50, y_p = Fin 20\<rparr>"
    by (simp add: dragged_by_def)
  have x: "js_add (Fin 25) (js_mul (js_div (Fin 50) (Fin 200)) (Fin 100)) = Fin 50"
    by (simp add: js_eval rnd_eval)
  have y: "js_add (Fin 5) (js_mul (js_div (Fin 20) (Fin 400)) (Fin 100)) = Fin 10"
    by (simp add: js_eval rnd_eval)
  have v: "moveExisting_spec (Fin 25) (Fin 5) \<lparr>x_p = Fin 50, y_p = Fin 20\<rparr> box_200_400
           = (Fin 50, Fin 10)"
    by (simp add: moveExisting_spec_def box_200_400_def x y)
  have "drop_PdfPage 1 (PlacedItem 0 (Fin 25) (Fin 5) ''Signature'') (dragged_by 50 20)
         (Some box_200_400) scenario_assigned
        = handleMoveField 0 (Fin 50) (Fin 10) scenario_assigned"
    using moveExisting_drop [OF b m, of 1 0 "Fin 25" "Fin 5" "''Signature''" scenario_assigned,
        THEN conjunct1]
    by (simp add: v)
  then have "placedFields (drop_PdfPage 1 (PlacedItem 0 (Fin 25) (Fin 5) ''Signature'')
         (dragged_by 50 20) (Some box_200_400) scenario_assigned)
       = [\<lparr>id_f = 0, pageNum = 1, left_f = Fin 50, top_f = Fin 10, type_f = ''Signature'',
           assignedTo = Some ''filler_1700000000000''\<rparr>]"
    by (simp add: handleMoveField_def scenario_assigned_val)
  with b m show ?thesis by blast
qed

section \<open>A surface box of zero size\<close>

lemma scenario_half_val:
  "scenario_half = \<lparr>pdf = True, numPages = 1,
      placedFields = [\<lparr>id_f = 0, pageNum = 1, left_f = Fin (1 / 2), top_f = Fin 0,
                       type_f = ''Signature'', assignedTo = None\<rparr>],
      fillers = [], newFillerEmail = [], nextId = 1\<rparr>"
proof -
  have x: "js_mul (js_div (js_sub (Fin 1) (Fin 0)) (Fin 200)) (Fin 100) = Fin (1 / 2)"
    by (simp add: js_eval rnd_eval)
  have y: "js_mul (js_div (js_sub (Fin 0) (Fin 0)) (Fin 400)) (Fin 100) = Fin 0"
    by (simp add: js_eval)
  show ?thesis
    unfolding scenario_half_def
    by (simp add: drop_PdfPage_def pointer_at_def box_200_400_def x y handleDrop_def
        fileLoaded_def init_app_def Math_max_def Math_min_def)
qed

text \<open>
  Claim C5, evaluated where it fails. On the box of zero width and height the handler
  divides by zero and goes on: a new field dropped at the corner of the box is stored with
  NaN for both coordinates, a new field dropped anywhere else is stored at an end of the
  range, and a placed field dropped with no movement is moved to NaN.
\<close>

theorem drop_zero_box:
  "placedFields (drop_PdfPage 1 (NewItem ''Signature'') (pointer_at 0 0) (Some zero_box)
      scenario_added)
     = [\<lparr>id_f = 0, pageNum = 1, left_f = NaN, top_f = NaN, type_f = ''Signature'',
         assignedTo = None\<rparr>]
   \<and> placedFields (drop_PdfPage 1 (NewItem ''Signature'') (pointer_at 50 20) (Some zero_box)
      scenario_added)
     = [\<lparr>id_f = 0, pageNum = 1, left_f = Fin 100, top_f = Fin 100, type_f = ''Signature'',
         assignedTo = None\<rparr>]
   \<and> placedFields (drop_PdfPage 1 (PlacedItem 0 (Fin 25) (Fin 5) ''Signature'') (dragged_by 0 0)
      (Some zero_box) scenario_assigned)
     = [\<lparr>id_f = 0, pageNum = 1, left_f = NaN, top_f = NaN, type_f = ''Signature'',
         assignedTo = Some ''filler_1700000000000''\<rparr>]"
proof -
  have a: "placedFields (drop_PdfPage 1 (NewItem ''Signature'') (pointer_at 0 0) (Some zero_box)
      scenario_added)
     = [\<lparr>id_f = 0, pageNum = 1, left_f = NaN, top_f = NaN, type_f = ''Signature'',
         assignedTo = None\<rparr>]"
    by (simp add: drop_PdfPage_def pointer_at_def zero_box_def scenario_added_val handleDrop_def
        js_eval)
  have b: "placedFields (drop_PdfPage 1 (NewItem ''Signature'') (pointer_at 50 20) (Some zero_box)
      scenario_added)
     = [\<lparr>id_f = 0, pageNum = 1, left_f = Fin 100, top_f = Fin 100, type_f = ''Signature'',
         assignedTo = None\<rparr>]"
    by (simp add: drop_PdfPage_def pointer_at_def zero_box_def scenario_added_val handleDrop_def
        js_eval)
  have c: "placedFields (drop_PdfPage 1 (PlacedItem 0 (Fin 25) (Fin 5) ''Signature'')
      (dragged_by 0 0) (Some zero_box) scenario_assigned)
     = [\<lparr>id_f = 0, pageNum = 1, left_f = NaN, top_f = NaN, type_f = ''Signature'',
         assignedTo = Some ''filler_1700000000000''\<rparr>]"
    by (simp add: drop_PdfPage_def dragged_by_def zero_box_def scenario_assigned_val
        handleMoveField_def js_eval)
  from a b c show ?thesis by blast
qed

section \<open>Moving twice\<close>

lemma clampq_twice:
  "0 \<le> l \<Longrightarrow> l \<le> 100 \<Longrightarrow> clampq (clampq (l + p) + p) = clampq (l + 2 * p)"
  by (auto simp: clampq_def max_def min_def)

lemma handleMoveField_twice:
  "handleMoveField i a b (handleMoveField i a' b' s) = handleMoveField i a b s"
  by (simp add: handleMoveField_def comp_def)

text \<open>
  Claim C9, as the code has it. The field of \<open>scenario_half\<close> stands at left 0.5. Moved by
  7 pixels on the box 200 wide it stands at 4, the item of the second drag carries 4, and
  moved by 7 pixels again it stands at 7.5. Moved once by 14 pixels it stands at the
  next number above 7.5: no clamping takes part, each sum is rounded.
\<close>

theorem move_twice_counterexample:
  "placedFields (drop_PdfPage 1 (PlacedItem 0 (Fin (1 / 2)) (Fin 0) ''Signature'')
        (dragged_by 7 0) (Some box_200_400) scenario_half)
     = [\<lparr>id_f = 0, pageNum = 1, left_f = Fin 4, top_f = Fin 0, type_f = ''Signature'',
         assignedTo = None\<rparr>]
   \<and> placedFields (drop_PdfPage 1 (PlacedItem 0 (Fin 4) (Fin 0) ''Signature'')
        (dragged_by 7 0) (Some box_200_400)
        (drop_PdfPage 1 (PlacedItem 0 (Fin (1 / 2)) (Fin 0) ''Signature'')
           (dragged_by 7 0) (Some box_200_400) scenario_half))
     = [\<lparr>id_f = 0, pageNum = 1, left_f = Fin (15 / 2), top_f = Fin 0, type_f = ''Signature'',
         assignedTo = None\<rparr>]
   \<and> placedFields (drop_PdfPage 1 (PlacedItem 0 (Fin (1 / 2)) (Fin 0) ''Signature'')
        (dragged_by 14 0) (Some box_200_400) scenario_half)
     = [\<lparr>id_f = 0, pageNum = 1, left_f = Fin (8444249301319681 / 1125899906842624),
         top_f = Fin 0, type_f = ''Signature'', assignedTo = None\<rparr>]
   \<and> drop_PdfPage 1 (PlacedItem 0 (Fin 4) (Fin 0) ''Signature'')
        (dragged_by 7 0) (Some box_200_400)
        (drop_PdfPage 1 (PlacedItem 0 (Fin (1 / 2)) (Fin 0) ''Signature'')
           (dragged_by 7 0) (Some box_200_400) scenario_half)
     \<noteq> drop_PdfPage 1 (PlacedItem 0 (Fin (1 / 2)) (Fin 0) ''Signature'')
        (dragged_by 14 0) (Some box_200_400) scenario_half"
proof -
  have y: "js_add (Fin 0) (js_mul (js_div (Fin 0) (Fin 400)) (Fin 100)) = Fin 0"
    by (simp add: js_eval)
  have x1: "js_add (Fin (1 / 2)) (js_mul (js_div (Fin 7) (Fin 200)) (Fin 100)) = Fin 4"
    by (simp add: js_eval rnd_eval)
  have x2: "js_add (Fin 4) (js_mul (js_div (Fin 7) (Fin 200)) (Fin 100)) = Fin (15 / 2)"
    by (simp add: js_eval rnd_eval)
  have x3: "js_add (Fin (1 / 2)) (js_mul (js_div (Fin 14) (Fin 200)) (Fin 100))
            = Fin (8444249301319681 / 1125899906842624)"
    by (simp add: js_eval rnd_eval)
  have first: "drop_PdfPage 1 (PlacedItem 0 (Fin (1 / 2)) (Fin 0) ''Signature'')
        (dragged_by 7 0) (Some box_200_400) scenario_half
      = handleMoveField 0 (Fin 4) (Fin 0) scenario_half"
    by (simp add: drop_PdfPage_def dragged_by_def box_200_400_def x1 y clamp_code)
  have second: "drop_PdfPage 1 (PlacedItem 0 (Fin 4) (Fin 0) ''Signature'')
        (dragged_by 7 0) (Some box_200_400) (handleMoveField 0 (Fin 4) (Fin 0) scenario_half)
      = handleMoveField 0 (Fin (15 / 2)) (Fin 0) scenario_half"
    by (simp add: drop_PdfPage_def dragged_by_def box_200_400_def x2 y clamp_code
        handleMoveField_twice)
  have once: "drop_PdfPage 1 (PlacedItem 0 (Fin (1 / 2)) (Fin 0) ''Signature'')
        (dragged_by 14 0) (Some box_200_400) scenario_half
      = handleMoveField 0 (Fin (8444249301319681 / 1125899906842624)) (Fin 0) scenario_half"
    by (simp add: drop_PdfPage_def dragged_by_def box_200_400_def x3 y clamp_code)
  have a: "placedFields (handleMoveField 0 (Fin 4) (Fin 0) scenario_half)
     = [\<lparr>id_f = 0, pageNum = 1, left_f = Fin 4, top_f = Fin 0, type_f = ''Signature'',
         assignedTo = None\<rparr>]"
    by (simp add: handleMoveField_def scenario_half_val)
  have b: "placedFields (handleMoveField 0 (Fin (15 / 2)) (Fin 0) scenario_half)
     = [\<lparr>id_f = 0, pageNum = 1, left_f = Fin (15 / 2), top_f = Fin 0, type_f = ''Signature'',
         assignedTo = None\<rparr>]"
    by (simp add: handleMoveField_def scenario_half_val)
  have c: "placedFields (handleMoveField 0 (Fin (8444249301319681 / 1125899906842624)) (Fin 0)
        scenario_half)
     = [\<lparr>id_f = 0, pageNum = 1, left_f = Fin (8444249301319681 / 1125899906842624),
         top_f = Fin 0, type_f = ''Signature'', assignedTo = None\<rparr>]"
    by (simp add: handleMoveField_def scenario_half_val)
  have d: "handleMoveField 0 (Fin (15 / 2)) (Fin 0) scenario_half
        \<noteq> handleMoveField 0 (Fin (8444249301319681 / 1125899906842624)) (Fin 0) scenario_half"
  proof
    assume "handleMoveField 0 (Fin (15 / 2)) (Fin 0) scenario_half
        = handleMoveField 0 (Fin (8444249301319681 / 1125899906842624)) (Fin 0) scenario_half"
    then have "placedFields (handleMoveField 0 (Fin (15 / 2)) (Fin 0) scenario_half)
        = placedFields (handleMoveField 0 (Fin (8444249301319681 / 1125899906842624)) (Fin 0)
            scenario_half)"
      by simp
    then show False unfolding b c by simp
  qed
  show ?thesis
    unfolding first second once using a b c d by blast
qed

section \<open>Bounds on the rounding\<close>

lemma pow2_powi: "pow2 e = 2 powi e"
  by (simp add: pow2_def power_int_def inverse_eq_divide power_one_over)

lemma pow2_pos: "0 < pow2 e"
  by (simp add: pow2_powi)

lemma pow2_add: "pow2 (a + b) = pow2 a * pow2 b"
  by (simp add: pow2_powi power_int_add)

lemma pow2_Suc: "pow2 (e + 1) = 2 * pow2 e"
  using power_int_add_1' [of "2::rat" e] by (simp add: pow2_powi)

lemma pow2_mono: "a \<le> b \<Longrightarrow> pow2 a \<le> pow2 b"
  by (simp add: pow2_powi power_int_increasing)

lemma pow2_strict_mono: "a < b \<Longrightarrow> pow2 a < pow2 b"
  by (simp add: pow2_powi power_int_strict_increasing)

lemma pow2_nat: "pow2 (int n) = 2 ^ n"
  by (simp add: pow2_def)

lemma pow2_neg_nat: "pow2 (- int n) = 1 / 2 ^ n"
  by (simp add: pow2_powi power_int_minus inverse_eq_divide)

lemma bit_length_bounds:
  "0 < n \<Longrightarrow> 2 ^ (bit_length n - 1) \<le> n \<and> n < 2 ^ bit_length n"
proof (induction n rule: bit_length.induct)
  case (1 n)
  show ?case
  proof (cases "n div 2 = 0")
    case True
    with "1.prems" have "n = 1" by presburger
    then show ?thesis by simp
  next
    case False
    then have pos: "0 < n div 2" by simp
    from "1.prems" have bl: "bit_length n = Suc (bit_length (n div 2))"
      by (subst bit_length.simps) simp
    from "1.IH" [OF _ pos] "1.prems"
    have ih: "2 ^ (bit_length (n div 2) - 1) \<le> n div 2" "n div 2 < 2 ^ bit_length (n div 2)"
      by simp_all
    from pos have blpos: "0 < bit_length (n div 2)"
      by (subst bit_length.simps) simp
    then have e: "2 ^ bit_length (n div 2) = (2::nat) * 2 ^ (bit_length (n div 2) - 1)"
      by (cases "bit_length (n div 2)") simp_all
    have "2 ^ (bit_length n - 1) = (2::nat) ^ bit_length (n div 2)"
      by (simp add: bl)
    also have "\<dots> \<le> 2 * (n div 2)"
      using ih(1) e by simp
    also have "\<dots> \<le> n" by presburger
    finally have lo: "2 ^ (bit_length n - 1) \<le> n" .
    have "n < 2 * (n div 2) + 2" by presburger
    also have "\<dots> \<le> 2 * 2 ^ bit_length (n div 2)"
      using ih(2) by simp
    also have "\<dots> = 2 ^ bit_length n"
      by (simp add: bl)
    finally have "n < 2 ^ bit_length n" .
    with lo show ?thesis by simp
  qed
qed

lemma bit_length_pos: "0 < n \<Longrightarrow> 0 < bit_length n"
  by (subst bit_length.simps) simp

lemma ilog2_bounds:
  assumes "0 < a"
  shows "pow2 (ilog2 a) \<le> a \<and> a < pow2 (ilog2 a + 1)"
proof (cases "1 \<le> a")
  case True
  define n where "n = nat \<lfloor>a\<rfloor>"
  from True have f1: "1 \<le> \<lfloor>a\<rfloor>" by simp
  then have npos: "0 < n" by (simp add: n_def)
  have nle: "of_nat n \<le> a"
    using f1 by (simp add: n_def)
  have alt: "a < of_nat n + 1"
  proof -
    have "a < of_int \<lfloor>a\<rfloor> + 1" by linarith
    then show ?thesis using f1 by (simp add: n_def)
  qed
  from bit_length_bounds [OF npos]
  have b: "2 ^ (bit_length n - 1) \<le> n" "n < 2 ^ bit_length n" by simp_all
  from bit_length_pos [OF npos] have blpos: "0 < bit_length n" .
  have il: "ilog2 a = int (bit_length n - 1)"
    using True blpos by (simp add: ilog2_def n_def [symmetric] of_nat_diff)
  have "pow2 (ilog2 a) = of_nat (2 ^ (bit_length n - 1))"
    by (simp add: il pow2_nat)
  also have "\<dots> \<le> (of_nat n :: rat)"
    using b(1) by (simp only: of_nat_le_iff)
  finally have lo: "pow2 (ilog2 a) \<le> a" using nle by simp
  have "n + 1 \<le> 2 ^ bit_length n" using b(2) by simp
  then have "(of_nat (n + 1) :: rat) \<le> of_nat (2 ^ bit_length n)"
    by (simp only: of_nat_le_iff)
  then have "of_nat n + 1 \<le> (2 :: rat) ^ bit_length n" by simp
  moreover have "ilog2 a + 1 = int (bit_length n)"
    using blpos by (simp add: il)
  ultimately have "a < pow2 (ilog2 a + 1)"
    using alt by (simp add: pow2_nat)
  with lo show ?thesis by simp
next
  case False
  define b where "b = 1 / a"
  define k where "k = nat (\<lceil>b\<rceil> - 1)"
  from False assms have b1: "1 < b" by (simp add: b_def)
  then have c2: "2 \<le> \<lceil>b\<rceil>" by linarith
  then have kpos: "0 < k" by (simp add: k_def)
  have kk: "int k = \<lceil>b\<rceil> - 1" using c2 by (simp add: k_def)
  have klt: "of_nat k < b"
  proof -
    have "of_int (\<lceil>b\<rceil> - 1) < b" by linarith
    then show ?thesis by (simp only: kk [symmetric] of_int_of_nat_eq)
  qed
  have ble: "b \<le> of_nat k + 1"
  proof -
    have "b \<le> of_int \<lceil>b\<rceil>" by linarith
    also have "\<dots> = of_int (int k) + 1" by (simp add: kk)
    finally show ?thesis by simp
  qed
  from bit_length_bounds [OF kpos]
  have bb: "2 ^ (bit_length k - 1) \<le> k" "k < 2 ^ bit_length k" by simp_all
  from bit_length_pos [OF kpos] have blpos: "0 < bit_length k" .
  have il: "ilog2 a = - int (bit_length k)"
    using False by (simp add: ilog2_def b_def [symmetric] k_def [symmetric])
  have bpos: "0 < b" using b1 by simp
  have ab: "a = 1 / b" using assms by (simp add: b_def)
  have "k + 1 \<le> 2 ^ bit_length k" using bb(2) by simp
  then have "(of_nat (k + 1) :: rat) \<le> of_nat (2 ^ bit_length k)"
    by (simp only: of_nat_le_iff)
  then have up: "b \<le> 2 ^ bit_length k" using ble by simp
  have "(2::rat) ^ (bit_length k - 1) = of_nat (2 ^ (bit_length k - 1))" by simp
  also have "\<dots> \<le> of_nat k"
    using bb(1) by (simp only: of_nat_le_iff)
  also have "\<dots> < b" by (rule klt)
  finally have dn: "2 ^ (bit_length k - 1) < b" .
  have p1: "pow2 (ilog2 a) = 1 / 2 ^ bit_length k"
    by (simp only: il pow2_neg_nat)
  have p2: "pow2 (ilog2 a + 1) = 1 / 2 ^ (bit_length k - 1)"
  proof -
    have "ilog2 a + 1 = - int (bit_length k - 1)"
      using blpos by (simp add: il of_nat_diff)
    then show ?thesis by (simp only: pow2_neg_nat)
  qed
  have "1 / 2 ^ bit_length k \<le> 1 / b"
    using up bpos by (simp add: frac_le)
  then have "pow2 (ilog2 a) \<le> 1 / b" by (simp only: p1)
  then have lo: "pow2 (ilog2 a) \<le> a" by (simp only: ab [symmetric])
  have "1 / b < 1 / 2 ^ (bit_length k - 1)"
    using dn bpos by (simp add: frac_less2)
  then have "1 / b < pow2 (ilog2 a + 1)" by (simp only: p2)
  then have hi: "a < pow2 (ilog2 a + 1)" by (simp only: ab [symmetric])
  from lo hi show ?thesis by simp
qed

lemma ilog2_unique:
  assumes "0 < a" and "pow2 e \<le> a" and "a < pow2 (e + 1)"
  shows "ilog2 a = e"
proof (rule ccontr)
  assume ne: "ilog2 a \<noteq> e"
  from ilog2_bounds [OF assms(1)]
  have b: "pow2 (ilog2 a) \<le> a" "a < pow2 (ilog2 a + 1)" by simp_all
  show False
  proof (cases "ilog2 a < e")
    case True
    then have "pow2 (ilog2 a + 1) \<le> pow2 e" by (intro pow2_mono) simp
    with b(2) assms(2) show False by simp
  next
    case False
    with ne have "e + 1 \<le> ilog2 a" by simp
    then have "pow2 (e + 1) \<le> pow2 (ilog2 a)" by (rule pow2_mono)
    with b(1) assms(3) show False by simp
  qed
qed

lemma ilog2_double: "0 < a \<Longrightarrow> ilog2 (2 * a) = ilog2 a + 1"
proof -
  assume a: "0 < a"
  from ilog2_bounds [OF a]
  have b: "pow2 (ilog2 a) \<le> a" "a < pow2 (ilog2 a + 1)" by simp_all
  show ?thesis
  proof (rule ilog2_unique)
    show "0 < 2 * a" using a by simp
    show "pow2 (ilog2 a + 1) \<le> 2 * a" using b(1) by (simp add: pow2_Suc)
    have "pow2 (ilog2 a + 1 + 1) = 2 * pow2 (ilog2 a + 1)" by (rule pow2_Suc)
    then show "2 * a < pow2 (ilog2 a + 1 + 1)" using b(2) by simp
  qed
qed

lemma round_even_near: "\<bar>of_int (round_even t) - t\<bar> \<le> 1 / 2"
proof -
  have "of_int \<lfloor>t\<rfloor> \<le> t" "t < of_int \<lfloor>t\<rfloor> + 1" by linarith+
  then show ?thesis
    by (auto simp: round_even_def Let_def)
qed

lemma round_even_ge: "of_int k \<le> t \<Longrightarrow> k \<le> round_even t"
proof -
  assume "of_int k \<le> t"
  then have "k \<le> \<lfloor>t\<rfloor>" by (simp add: le_floor_iff)
  then show ?thesis by (auto simp: round_even_def Let_def)
qed

lemma round_even_le: "t \<le> of_int k \<Longrightarrow> round_even t \<le> k"
proof (cases "t = of_int k")
  case True
  then show ?thesis by (simp add: round_even_def Let_def)
next
  case False
  assume "t \<le> of_int k"
  with False have "t < of_int k" by simp
  then have "\<lfloor>t\<rfloor> < k" by (simp add: floor_less_iff)
  then show ?thesis by (auto simp: round_even_def Let_def)
qed

lemma ilog2_range:
  assumes "0 < a" and "pow2 lo \<le> a" and "a < pow2 hi"
  shows "lo \<le> ilog2 a \<and> ilog2 a < hi"
proof -
  from ilog2_bounds [OF assms(1)]
  have b: "pow2 (ilog2 a) \<le> a" "a < pow2 (ilog2 a + 1)" by simp_all
  have "lo \<le> ilog2 a"
  proof (rule ccontr)
    assume "\<not> lo \<le> ilog2 a"
    then have "ilog2 a + 1 \<le> lo" by simp
    then have "pow2 (ilog2 a + 1) \<le> pow2 lo" by (rule pow2_mono)
    with b(2) assms(2) show False by simp
  qed
  moreover have "ilog2 a < hi"
  proof (rule ccontr)
    assume "\<not> ilog2 a < hi"
    then have "hi \<le> ilog2 a" by simp
    then have "pow2 hi \<le> pow2 (ilog2 a)" by (rule pow2_mono)
    with b(1) assms(3) show False by simp
  qed
  ultimately show ?thesis by simp
qed

lemma pow2_split: "pow2 e = pow2 (e - 52) * 2 ^ 52"
proof -
  have "pow2 e = pow2 ((e - 52) + 52)" by simp
  also have "\<dots> = pow2 (e - 52) * pow2 52" by (rule pow2_add)
  also have "pow2 52 = 2 ^ 52" by (simp add: pow2_def)
  finally show ?thesis .
qed

lemma rnd_normal:
  assumes "q \<noteq> 0" and "- 1022 \<le> ilog2 \<bar>q\<bar>" and "ilog2 \<bar>q\<bar> \<le> 1022"
  shows "rnd q = Fin (if q < 0
            then - (of_int (round_even (\<bar>q\<bar> / pow2 (ilog2 \<bar>q\<bar> - 52))) * pow2 (ilog2 \<bar>q\<bar> - 52))
            else of_int (round_even (\<bar>q\<bar> / pow2 (ilog2 \<bar>q\<bar> - 52))) * pow2 (ilog2 \<bar>q\<bar> - 52))
       \<and> 2 ^ 52 \<le> round_even (\<bar>q\<bar> / pow2 (ilog2 \<bar>q\<bar> - 52))
       \<and> round_even (\<bar>q\<bar> / pow2 (ilog2 \<bar>q\<bar> - 52)) \<le> 2 ^ 53"
proof -
  define a where "a = \<bar>q\<bar>"
  define e where "e = ilog2 a"
  define u where "u = pow2 (e - 52)"
  define m where "m = round_even (a / u)"
  have apos: "0 < a" using assms(1) by (simp add: a_def)
  have upos: "0 < u" by (simp add: u_def pow2_pos)
  from ilog2_bounds [OF apos]
  have b: "pow2 e \<le> a" "a < pow2 (e + 1)" by (simp_all add: e_def)
  have pe: "pow2 e = u * 2 ^ 52" unfolding u_def by (rule pow2_split)
  have pe1: "pow2 (e + 1) = u * 2 ^ 53"
    by (simp add: pow2_Suc pe)
  have "of_int (2 ^ 52) \<le> a / u"
    using b(1) upos by (simp add: pe le_divide_eq mult.commute)
  then have lo: "2 ^ 52 \<le> m" unfolding m_def by (rule round_even_ge)
  have "a / u \<le> of_int (2 ^ 53)"
    using b(2) upos by (simp add: pe1 divide_le_eq mult.commute)
  then have hi: "m \<le> 2 ^ 53" unfolding m_def by (rule round_even_le)
  have emax: "max (ilog2 a) (- 1022) = e"
    using assms(2) by (simp add: e_def a_def)
  have noov: "\<not> (1024 \<le> e \<or> (e = 1023 \<and> m = 2 ^ 53))"
    using assms(3) by (simp add: e_def a_def)
  have mne: "m \<noteq> 0" using lo by auto
  have "rnd q = Fin (if q < 0 then - (of_int m * u) else of_int m * u)"
    using noov mne
    by (simp add: rnd_def Let_def a_def [symmetric] emax u_def [symmetric] m_def [symmetric])
  with lo hi show ?thesis
    by (simp add: m_def u_def e_def a_def)
qed

lemma rnd_double:
  assumes "q \<noteq> 0" and "- 1022 \<le> ilog2 \<bar>q\<bar>" and "ilog2 \<bar>q\<bar> \<le> 1021"
  shows "\<exists>y. rnd q = Fin y \<and> rnd (2 * q) = Fin (2 * y) \<and> y \<noteq> 0
             \<and> pow2 (ilog2 \<bar>q\<bar>) \<le> \<bar>y\<bar> \<and> \<bar>y\<bar> \<le> pow2 (ilog2 \<bar>q\<bar> + 1)"
proof -
  define e where "e = ilog2 \<bar>q\<bar>"
  define u where "u = pow2 (e - 52)"
  define m where "m = round_even (\<bar>q\<bar> / u)"
  have upos: "0 < u" by (simp add: u_def pow2_pos)
  have apos: "0 < \<bar>q\<bar>" using assms(1) by simp
  from rnd_normal [OF assms(1,2)] assms(3)
  have r1: "rnd q = Fin (if q < 0 then - (of_int m * u) else of_int m * u)"
    and lo: "2 ^ 52 \<le> m" and hi: "m \<le> 2 ^ 53"
    by (simp_all add: m_def u_def e_def)
  have e2: "ilog2 \<bar>2 * q\<bar> = e + 1"
    using ilog2_double [OF apos] by (simp add: e_def abs_mult)
  have u2: "pow2 (e + 1 - 52) = 2 * u"
  proof -
    have "pow2 (e - 52 + 1) = 2 * pow2 (e - 52)" by (rule pow2_Suc)
    then show ?thesis by (simp add: u_def add.commute)
  qed
  have q2: "\<bar>2 * q\<bar> / (2 * u) = \<bar>q\<bar> / u"
    by (simp add: abs_mult)
  have "2 * q \<noteq> 0" using assms(1) by simp
  moreover have "- 1022 \<le> ilog2 \<bar>2 * q\<bar>" using assms(2) by (simp add: e2 e_def)
  moreover have "ilog2 \<bar>2 * q\<bar> \<le> 1022" using assms(3) by (simp add: e2 e_def)
  ultimately have "rnd (2 * q) = Fin (if 2 * q < 0
            then - (of_int (round_even (\<bar>2 * q\<bar> / pow2 (ilog2 \<bar>2 * q\<bar> - 52)))
                     * pow2 (ilog2 \<bar>2 * q\<bar> - 52))
            else of_int (round_even (\<bar>2 * q\<bar> / pow2 (ilog2 \<bar>2 * q\<bar> - 52)))
                     * pow2 (ilog2 \<bar>2 * q\<bar> - 52))"
    using rnd_normal [of "2 * q"] by blast
  then have r2: "rnd (2 * q) = Fin (if q < 0 then - (of_int m * (2 * u)) else of_int m * (2 * u))"
    by (simp only: e2 u2 q2 m_def [symmetric]) simp
  define y where "y = (if q < 0 then - (of_int m * u) else of_int m * u)"
  have mpos: "(0::rat) < of_int m" using lo by simp
  have ay: "\<bar>y\<bar> = of_int m * u"
    using mpos upos by (simp add: y_def abs_mult)
  have pe: "pow2 e = u * 2 ^ 52" unfolding u_def by (rule pow2_split)
  have pe1: "pow2 (e + 1) = u * 2 ^ 53" by (simp add: pow2_Suc pe)
  have "(of_int (2 ^ 52) :: rat) \<le> of_int m" using lo by (simp only: of_int_le_iff)
  then have "u * 2 ^ 52 \<le> of_int m * u" using upos by (simp add: mult.commute)
  then have ylo: "pow2 e \<le> \<bar>y\<bar>" by (simp add: pe ay)
  have "(of_int m :: rat) \<le> of_int (2 ^ 53)" using hi by (simp only: of_int_le_iff)
  then have "of_int m * u \<le> u * 2 ^ 53" using upos by (simp add: mult.commute)
  then have yhi: "\<bar>y\<bar> \<le> pow2 (e + 1)" by (simp add: pe1 ay)
  have yne: "y \<noteq> 0" using mpos upos by (simp add: y_def)
  have "rnd q = Fin y" using r1 by (simp add: y_def)
  moreover have "rnd (2 * q) = Fin (2 * y)" using r2 by (simp add: y_def)
  ultimately show ?thesis using yne ylo yhi by (auto simp: e_def)
qed

lemma percent_double:
  assumes "0 < w" and "ordinary d w"
  shows "\<exists>p. js_mul (js_div (Fin d) (Fin w)) (Fin 100) = Fin p
           \<and> js_mul (js_div (Fin (2 * d)) (Fin w)) (Fin 100) = Fin (2 * p)"
proof (cases "d = 0")
  case True
  with assms(1) have "js_mul (js_div (Fin d) (Fin w)) (Fin 100) = Fin 0"
    and "js_mul (js_div (Fin (2 * d)) (Fin w)) (Fin 100) = Fin (2 * 0)"
    by (simp_all add: js_eval)
  then show ?thesis by blast
next
  case False
  define q where "q = d / w"
  have qne: "q \<noteq> 0" using False assms(1) by (simp add: q_def)
  from assms(2) False have ql: "pow2 (- 1000) \<le> \<bar>q\<bar>" and qh: "\<bar>q\<bar> \<le> pow2 1000"
    by (simp_all add: ordinary_def q_def)
  have "pow2 1000 < pow2 1001" by (rule pow2_strict_mono) simp
  with qh have qh': "\<bar>q\<bar> < pow2 1001" by simp
  have apos: "0 < \<bar>q\<bar>" using qne by simp
  from ilog2_range [OF apos ql qh']
  have er: "- 1000 \<le> ilog2 \<bar>q\<bar>" "ilog2 \<bar>q\<bar> < 1001" by simp_all
  have "\<exists>y. rnd q = Fin y \<and> rnd (2 * q) = Fin (2 * y) \<and> y \<noteq> 0
             \<and> pow2 (ilog2 \<bar>q\<bar>) \<le> \<bar>y\<bar> \<and> \<bar>y\<bar> \<le> pow2 (ilog2 \<bar>q\<bar> + 1)"
    using er by (intro rnd_double [OF qne]) simp_all
  then obtain y where y: "rnd q = Fin y" "rnd (2 * q) = Fin (2 * y)" "y \<noteq> 0"
    "pow2 (ilog2 \<bar>q\<bar>) \<le> \<bar>y\<bar>" "\<bar>y\<bar> \<le> pow2 (ilog2 \<bar>q\<bar> + 1)"
    by blast
  have "pow2 (- 1000) \<le> pow2 (ilog2 \<bar>q\<bar>)" using er(1) by (rule pow2_mono)
  with y(4) have yl: "pow2 (- 1000) \<le> \<bar>y\<bar>" by simp
  have "pow2 (ilog2 \<bar>q\<bar> + 1) \<le> pow2 1001" using er(2) by (intro pow2_mono) simp
  with y(5) have yh: "\<bar>y\<bar> \<le> pow2 1001" by simp
  define r where "r = y * 100"
  have rne: "r \<noteq> 0" using y(3) by (simp add: r_def)
  have ar: "\<bar>r\<bar> = \<bar>y\<bar> * 100" by (simp add: r_def abs_mult)
  have p0: "(0::rat) < pow2 (- 1000)" by (rule pow2_pos)
  have rl: "pow2 (- 1000) \<le> \<bar>r\<bar>" using yl p0 by (simp add: ar)
  have "pow2 (1001 + 7) = pow2 1001 * pow2 7" by (rule pow2_add)
  also have "pow2 7 = 128" by (simp add: pow2_def)
  finally have p8: "pow2 1008 = pow2 1001 * 128" by simp
  have p1: "(0::rat) < pow2 1001" by (rule pow2_pos)
  have rh: "\<bar>r\<bar> < pow2 1008" using yh p1 by (simp add: ar p8)
  have rpos: "0 < \<bar>r\<bar>" using rne by simp
  from ilog2_range [OF rpos rl rh]
  have rr: "- 1000 \<le> ilog2 \<bar>r\<bar>" "ilog2 \<bar>r\<bar> < 1008" by simp_all
  have "\<exists>p. rnd r = Fin p \<and> rnd (2 * r) = Fin (2 * p) \<and> p \<noteq> 0
             \<and> pow2 (ilog2 \<bar>r\<bar>) \<le> \<bar>p\<bar> \<and> \<bar>p\<bar> \<le> pow2 (ilog2 \<bar>r\<bar> + 1)"
    using rr by (intro rnd_double [OF rne]) simp_all
  then obtain p where p: "rnd r = Fin p" "rnd (2 * r) = Fin (2 * p)" by blast
  have wne: "w \<noteq> 0" using assms(1) by simp
  have d1: "js_div (Fin d) (Fin w) = Fin y"
    using False wne y(1) by (simp add: js_div_def is_inf_def is_zero_def q_def)
  have "2 * d / w = 2 * q" by (simp add: q_def)
  then have d2: "js_div (Fin (2 * d)) (Fin w) = Fin (2 * y)"
    using False wne y(2) by (simp add: js_div_def is_inf_def is_zero_def)
  have m1: "js_mul (Fin y) (Fin 100) = Fin p"
    using y(3) p(1) by (simp add: js_mul_def is_inf_def is_zero_def r_def)
  have "rnd (200 * y) = Fin (2 * p)" using p(2) by (simp add: r_def)
  then have m2: "js_mul (Fin (2 * y)) (Fin 100) = Fin (2 * p)"
    using y(3) by (simp add: js_mul_def is_inf_def is_zero_def)
  show ?thesis unfolding d1 d2 using m1 m2 by blast
qed

lemma clampq_lipschitz: "\<bar>clampq a - clampq b\<bar> \<le> \<bar>a - b\<bar>"
  by (auto simp: clampq_def max_def min_def)

lemma clampq_range: "0 \<le> clampq a \<and> clampq a \<le> 100"
  by (auto simp: clampq_def max_def min_def)

lemma rnd_unfold:
  "rnd q =
     (if 1024 \<le> max (ilog2 \<bar>q\<bar>) (- 1022)
         \<or> (max (ilog2 \<bar>q\<bar>) (- 1022) = 1023
            \<and> round_even (\<bar>q\<bar> / pow2 (max (ilog2 \<bar>q\<bar>) (- 1022) - 52)) = 2 ^ 53)
      then (if q < 0 then NInf else PInf)
      else if round_even (\<bar>q\<bar> / pow2 (max (ilog2 \<bar>q\<bar>) (- 1022) - 52)) = 0
      then (if q < 0 then NZero else Fin 0)
      else Fin (if q < 0
                then - (of_int (round_even (\<bar>q\<bar> / pow2 (max (ilog2 \<bar>q\<bar>) (- 1022) - 52)))
                         * pow2 (max (ilog2 \<bar>q\<bar>) (- 1022) - 52))
                else of_int (round_even (\<bar>q\<bar> / pow2 (max (ilog2 \<bar>q\<bar>) (- 1022) - 52)))
                         * pow2 (max (ilog2 \<bar>q\<bar>) (- 1022) - 52)))"
  unfolding rnd_def Let_def by (rule refl)

lemma rnd_neg_clamp:
  assumes "q < 0"
  shows "clamp_spec (rnd q) = Fin 0"
proof -
  define e where "e = max (ilog2 \<bar>q\<bar>) (- 1022)"
  define u where "u = pow2 (e - 52)"
  define m where "m = round_even (\<bar>q\<bar> / u)"
  have r: "rnd q = (if 1024 \<le> e \<or> (e = 1023 \<and> m = 2 ^ 53) then NInf
                    else if m = 0 then NZero else Fin (- (of_int m * u)))"
    unfolding m_def u_def e_def by (subst rnd_unfold) (simp only: assms if_True)
  have upos: "0 < u" by (simp add: u_def pow2_pos)
  have "of_int 0 \<le> \<bar>q\<bar> / u" using upos by simp
  then have "0 \<le> m" unfolding m_def by (rule round_even_ge)
  then have "(0::rat) \<le> of_int m * u" using upos by simp
  then have neg: "max 0 (min 100 (- (of_int m * u))) = 0" by (simp add: max_def min_def)
  show ?thesis unfolding r using neg by simp
qed

lemma pow2_grid:
  assumes "e \<le> 54"
  shows "\<exists>K::int. 100 = of_int K * pow2 (e - 52) \<and> 0 < K"
proof -
  define n where "n = nat (54 - e)"
  have "pow2 (e - 52) * 2 ^ n = pow2 (e - 52) * pow2 (int n)" by (simp add: pow2_nat)
  also have "\<dots> = pow2 (e - 52 + int n)" by (simp add: pow2_add)
  also have "e - 52 + int n = 2" using assms by (simp add: n_def)
  also have "pow2 2 = 4" by (simp add: pow2_def)
  finally have "pow2 (e - 52) * 2 ^ n = 4" .
  moreover have "of_int (25 * 2 ^ n) * pow2 (e - 52) = 25 * (pow2 (e - 52) * 2 ^ n)" by simp
  ultimately have "of_int (25 * 2 ^ n) * pow2 (e - 52) = 100" by simp
  moreover have "(0::int) < 25 * 2 ^ n" by simp
  ultimately show ?thesis by metis
qed

lemma ilog2_ge:
  assumes "0 < a" and "pow2 lo \<le> a"
  shows "lo \<le> ilog2 a"
proof (rule ccontr)
  from ilog2_bounds [OF assms(1)] have b: "a < pow2 (ilog2 a + 1)" by simp
  assume "\<not> lo \<le> ilog2 a"
  then have "ilog2 a + 1 \<le> lo" by simp
  then have "pow2 (ilog2 a + 1) \<le> pow2 lo" by (rule pow2_mono)
  with b assms(2) show False by simp
qed

lemma ilog2_lt:
  assumes "0 < a" and "a < pow2 hi"
  shows "ilog2 a < hi"
proof (rule ccontr)
  from ilog2_bounds [OF assms(1)] have b: "pow2 (ilog2 a) \<le> a" by simp
  assume "\<not> ilog2 a < hi"
  then have "hi \<le> ilog2 a" by simp
  then have "pow2 hi \<le> pow2 (ilog2 a)" by (rule pow2_mono)
  with b assms(2) show False by simp
qed

lemma rnd_large_clamp:
  assumes "100 \<le> x"
  shows "clamp_spec (rnd x) = Fin 100"
proof -
  define e where "e = max (ilog2 \<bar>x\<bar>) (- 1022)"
  define u where "u = pow2 (e - 52)"
  define m where "m = round_even (\<bar>x\<bar> / u)"
  have xpos: "0 < x" using assms by simp
  have nneg: "(x < 0) = False" using xpos by simp
  have r: "rnd x = (if 1024 \<le> e \<or> (e = 1023 \<and> m = 2 ^ 53) then PInf
                    else if m = 0 then Fin 0 else Fin (of_int m * u))"
    unfolding m_def u_def e_def by (subst rnd_unfold) (simp only: nneg if_False)
  have ax: "\<bar>x\<bar> = x" using xpos by simp
  have upos: "0 < u" by (simp add: u_def pow2_pos)
  have "pow2 6 = 64" by (simp add: pow2_def)
  then have "pow2 6 \<le> x" using assms by simp
  from ilog2_ge [OF xpos this] have e6: "6 \<le> ilog2 x" .
  then have ee: "e = ilog2 x" by (simp add: e_def ax)
  from ilog2_bounds [OF xpos] have pe: "pow2 e \<le> x" by (simp add: ee)
  have big: "of_int m * u \<ge> 100 \<and> m \<noteq> 0"
  proof (cases "e \<le> 54")
    case True
    from pow2_grid [OF True] obtain K :: int where K: "100 = of_int K * u" "0 < K"
      by (auto simp: u_def)
    have "of_int K \<le> x / u"
      using assms upos K(1) by (simp add: le_divide_eq)
    then have km: "K \<le> m" unfolding m_def ax by (rule round_even_ge)
    then have "(of_int K :: rat) \<le> of_int m" by (simp only: of_int_le_iff)
    then have "of_int K * u \<le> of_int m * u" using upos by simp
    with K km show ?thesis by auto
  next
    case False
    then have "55 \<le> e" by simp
    then have "pow2 55 \<le> pow2 e" by (rule pow2_mono)
    moreover have "(100::rat) \<le> pow2 55" by (simp add: pow2_def)
    ultimately have h: "100 \<le> pow2 e" by simp
    have split: "pow2 e = u * 2 ^ 52" unfolding u_def by (rule pow2_split)
    have "of_int (2 ^ 52) \<le> x / u"
      using pe upos by (simp add: split le_divide_eq mult.commute)
    then have km: "2 ^ 52 \<le> m" unfolding m_def ax by (rule round_even_ge)
    then have "(of_int (2 ^ 52) :: rat) \<le> of_int m" by (simp only: of_int_le_iff)
    then have c: "u * 2 ^ 52 \<le> of_int m * u" using upos by (simp add: mult.commute)
    from h have "100 \<le> u * 2 ^ 52" by (simp only: split)
    from this c have "100 \<le> of_int m * u" by (rule order_trans)
    moreover have "m \<noteq> 0" using km by auto
    ultimately show ?thesis by simp
  qed
  then have "max 0 (min 100 (of_int m * u)) = 100" by (simp add: max_def min_def)
  then show ?thesis unfolding r using big by simp
qed

lemma rnd_small_clamp:
  assumes "0 < x" and "x < 100"
  shows "\<exists>y. clamp_spec (rnd x) = Fin y \<and> 0 \<le> y \<and> y \<le> 100 \<and> \<bar>y - x\<bar> \<le> 1 / 2 ^ 47"
proof -
  define e where "e = max (ilog2 \<bar>x\<bar>) (- 1022)"
  define u where "u = pow2 (e - 52)"
  define m where "m = round_even (\<bar>x\<bar> / u)"
  have nneg: "(x < 0) = False" using assms(1) by simp
  have r: "rnd x = (if 1024 \<le> e \<or> (e = 1023 \<and> m = 2 ^ 53) then PInf
                    else if m = 0 then Fin 0 else Fin (of_int m * u))"
    unfolding m_def u_def e_def by (subst rnd_unfold) (simp only: nneg if_False)
  have ax: "\<bar>x\<bar> = x" using assms(1) by simp
  have upos: "0 < u" by (simp add: u_def pow2_pos)
  have "pow2 7 = 128" by (simp add: pow2_def)
  then have "x < pow2 7" using assms(2) by simp
  from ilog2_lt [OF assms(1) this] have "ilog2 x < 7" .
  then have e6: "e \<le> 6" by (simp add: e_def ax)
  then have noov: "\<not> (1024 \<le> e \<or> (e = 1023 \<and> m = 2 ^ 53))" by simp
  have "e - 52 \<le> - 46" using e6 by simp
  then have "u \<le> pow2 (- 46)" unfolding u_def by (rule pow2_mono)
  moreover have "pow2 (- 46) = 1 / 2 ^ 46" by (simp add: pow2_def)
  ultimately have usmall: "u \<le> 1 / 2 ^ 46" by simp
  from e6 have "e \<le> 54" by simp
  from pow2_grid [OF this] obtain K :: int where K: "100 = of_int K * u" "0 < K"
    by (auto simp: u_def)
  have "x / u \<le> of_int K"
    using assms(2) upos K(1) by (simp add: divide_le_eq)
  then have mk: "m \<le> K" unfolding m_def ax by (rule round_even_le)
  then have "(of_int m :: rat) \<le> of_int K" by (simp only: of_int_le_iff)
  then have "of_int m * u \<le> of_int K * u" using upos by simp
  then have yhi: "of_int m * u \<le> 100" using K(1) by simp
  have "of_int 0 \<le> x / u" using assms(1) upos by simp
  then have "0 \<le> m" unfolding m_def ax by (rule round_even_ge)
  then have ylo: "(0::rat) \<le> of_int m * u" using upos by simp
  have "\<bar>of_int m - x / u\<bar> \<le> 1 / 2"
    unfolding m_def ax by (rule round_even_near)
  then have "\<bar>of_int m - x / u\<bar> * u \<le> 1 / 2 * u"
    using upos by (simp only: mult_le_cancel_right_pos)
  moreover have "\<bar>of_int m - x / u\<bar> * u = \<bar>of_int m * u - x\<bar>"
  proof -
    have "\<bar>of_int m - x / u\<bar> * u = \<bar>(of_int m - x / u) * u\<bar>"
      using upos by (simp add: abs_mult)
    also have "(of_int m - x / u) * u = of_int m * u - x"
      using upos by (simp add: algebra_simps)
    finally show ?thesis .
  qed
  ultimately have "\<bar>of_int m * u - x\<bar> \<le> u / 2" by simp
  then have err: "\<bar>of_int m * u - x\<bar> \<le> 1 / 2 ^ 47" using usmall by simp
  have cl: "max 0 (min 100 (of_int m * u)) = of_int m * u"
    using ylo yhi by (simp add: max_def min_def)
  have nf: "(1024 \<le> e \<or> (e = 1023 \<and> m = 2 ^ 53)) = False" using e6 by simp
  have r': "rnd x = (if m = 0 then Fin 0 else Fin (of_int m * u))"
    by (simp only: r nf if_False)
  have "clamp_spec (rnd x) = Fin (of_int m * u)"
  proof (cases "m = 0")
    case True
    then show ?thesis unfolding r' by simp
  next
    case False
    then show ?thesis unfolding r' using cl by simp
  qed
  with ylo yhi err show ?thesis by blast
qed

lemma add_clamp:
  "\<exists>y. clamp_spec (js_add (Fin a) (Fin b)) = Fin y \<and> 0 \<le> y \<and> y \<le> 100
        \<and> \<bar>y - clampq (a + b)\<bar> \<le> 1 / 2 ^ 47"
proof -
  consider "a + b = 0" | "a + b < 0" | "100 \<le> a + b" | "0 < a + b" "a + b < 100"
    by linarith
  then show ?thesis
  proof cases
    case 1
    then show ?thesis by (simp add: clampq_def)
  next
    case 2
    then have "clamp_spec (js_add (Fin a) (Fin b)) = Fin 0"
      by (simp add: rnd_neg_clamp)
    moreover have "clampq (a + b) = 0" using 2 by (simp add: clampq_def)
    ultimately show ?thesis by simp
  next
    case 3
    then have "clamp_spec (js_add (Fin a) (Fin b)) = Fin 100"
      by (simp add: rnd_large_clamp)
    moreover have "clampq (a + b) = 100" using 3 by (simp add: clampq_def)
    ultimately show ?thesis by simp
  next
    case 4
    from rnd_small_clamp [OF 4] obtain y where
      y: "clamp_spec (rnd (a + b)) = Fin y" "0 \<le> y" "y \<le> 100" "\<bar>y - (a + b)\<bar> \<le> 1 / 2 ^ 47"
      by blast
    have "clampq (a + b) = a + b" using 4 by (simp add: clampq_def)
    moreover have "js_add (Fin a) (Fin b) = rnd (a + b)" using 4 by simp
    ultimately show ?thesis using y by auto
  qed
qed

lemma axis_close:
  assumes "0 \<le> l" and "l \<le> 100"
  shows "close (clamp_spec (js_add (clamp_spec (js_add (Fin l) (Fin p))) (Fin p)))
               (clamp_spec (js_add (Fin l) (Fin (2 * p))))"
proof -
  from add_clamp [of l p] obtain y1 where
    y1: "clamp_spec (js_add (Fin l) (Fin p)) = Fin y1" "\<bar>y1 - clampq (l + p)\<bar> \<le> 1 / 2 ^ 47"
    by blast
  from add_clamp [of y1 p] obtain y2 where
    y2: "clamp_spec (js_add (Fin y1) (Fin p)) = Fin y2" "0 \<le> y2" "y2 \<le> 100"
        "\<bar>y2 - clampq (y1 + p)\<bar> \<le> 1 / 2 ^ 47"
    by blast
  from add_clamp [of l "2 * p"] obtain y' where
    y': "clamp_spec (js_add (Fin l) (Fin (2 * p))) = Fin y'" "0 \<le> y'" "y' \<le> 100"
        "\<bar>y' - clampq (l + 2 * p)\<bar> \<le> 1 / 2 ^ 47"
    by blast
  have "\<bar>clampq (y1 + p) - clampq (clampq (l + p) + p)\<bar> \<le> \<bar>(y1 + p) - (clampq (l + p) + p)\<bar>"
    by (rule clampq_lipschitz)
  then have a: "\<bar>clampq (y1 + p) - clampq (l + 2 * p)\<bar> \<le> 1 / 2 ^ 47"
    using y1(2) clampq_twice [OF assms, of p] by simp
  have "\<bar>y2 - y'\<bar> \<le> 3 / 2 ^ 47"
    using y2(4) y'(4) a by linarith
  then have "\<bar>y2 - y'\<bar> \<le> 1 / 2 ^ 45" by simp
  then show ?thesis
    unfolding y1(1) y2(1) y'(1) using y2(2,3) y'(2,3) by simp
qed

lemma pow2_grid_le:
  assumes "e \<le> k"
  shows "\<exists>K::int. pow2 k = of_int K * pow2 (e - 52) \<and> 0 < K"
proof -
  define n where "n = nat (k - e + 52)"
  have "pow2 (e - 52) * 2 ^ n = pow2 (e - 52) * pow2 (int n)" by (simp add: pow2_nat)
  also have "\<dots> = pow2 (e - 52 + int n)" by (simp add: pow2_add)
  also have "e - 52 + int n = k" using assms by (simp add: n_def)
  finally have "pow2 (e - 52) * 2 ^ n = pow2 k" .
  moreover have "of_int (2 ^ n) * pow2 (e - 52) = pow2 (e - 52) * 2 ^ n" by simp
  ultimately have "pow2 k = of_int (2 ^ n) * pow2 (e - 52)" by simp
  moreover have "(0::int) < 2 ^ n" by simp
  ultimately show ?thesis by blast
qed

lemma rnd_abs_le:
  assumes "q \<noteq> 0" and "\<bar>q\<bar> \<le> pow2 k" and "- 1022 \<le> k" and "k \<le> 1022"
  shows "is_finite (rnd q) \<and> \<bar>val (rnd q)\<bar> \<le> pow2 k"
proof -
  define e where "e = max (ilog2 \<bar>q\<bar>) (- 1022)"
  define u where "u = pow2 (e - 52)"
  define m where "m = round_even (\<bar>q\<bar> / u)"
  have r: "rnd q = (if 1024 \<le> e \<or> (e = 1023 \<and> m = 2 ^ 53)
                    then (if q < 0 then NInf else PInf)
                    else if m = 0 then (if q < 0 then NZero else Fin 0)
                    else Fin (if q < 0 then - (of_int m * u) else of_int m * u))"
    unfolding m_def u_def e_def by (rule rnd_unfold)
  have apos: "0 < \<bar>q\<bar>" using assms(1) by simp
  have upos: "0 < u" by (simp add: u_def pow2_pos)
  have "pow2 k < pow2 (k + 1)" by (rule pow2_strict_mono) simp
  with assms(2) have "\<bar>q\<bar> < pow2 (k + 1)" by simp
  from ilog2_lt [OF apos this] have "ilog2 \<bar>q\<bar> \<le> k" by simp
  then have ek: "e \<le> k" using assms(3) by (simp add: e_def)
  have nf: "(1024 \<le> e \<or> (e = 1023 \<and> m = 2 ^ 53)) = False"
    using ek assms(4) by simp
  from pow2_grid_le [OF ek] obtain K :: int where K: "pow2 k = of_int K * u" "0 < K"
    by (auto simp: u_def)
  have "\<bar>q\<bar> / u \<le> of_int K"
    using assms(2) upos K(1) by (simp add: divide_le_eq)
  then have "m \<le> K" unfolding m_def by (rule round_even_le)
  then have "(of_int m :: rat) \<le> of_int K" by (simp only: of_int_le_iff)
  then have "of_int m * u \<le> of_int K * u" using upos by simp
  then have hi: "of_int m * u \<le> pow2 k" using K(1) by simp
  have "of_int 0 \<le> \<bar>q\<bar> / u" using upos by simp
  then have "0 \<le> m" unfolding m_def by (rule round_even_ge)
  then have lo: "(0::rat) \<le> of_int m * u" using upos by simp
  have pk: "(0::rat) \<le> pow2 k" using pow2_pos [of k] by simp
  have r': "rnd q = (if m = 0 then (if q < 0 then NZero else Fin 0)
                     else Fin (if q < 0 then - (of_int m * u) else of_int m * u))"
    by (simp only: r nf if_False)
  show ?thesis
  proof (cases "m = 0")
    case True
    then have "rnd q = (if q < 0 then NZero else Fin 0)" unfolding r' by simp
    then show ?thesis using pk by simp
  next
    case False
    then have "rnd q = Fin (if q < 0 then - (of_int m * u) else of_int m * u)"
      unfolding r' by simp
    then show ?thesis using lo hi by simp
  qed
qed

lemma rnd_abs_ge:
  assumes "q \<noteq> 0" and "pow2 k \<le> \<bar>q\<bar>" and "- 1022 \<le> k"
  shows "(0 < q \<longrightarrow> rnd q = PInf \<or> (\<exists>y. rnd q = Fin y \<and> pow2 k \<le> y))
       \<and> (q < 0 \<longrightarrow> rnd q = NInf \<or> (\<exists>y. rnd q = Fin y \<and> y \<le> - pow2 k))"
proof -
  define e where "e = max (ilog2 \<bar>q\<bar>) (- 1022)"
  define u where "u = pow2 (e - 52)"
  define m where "m = round_even (\<bar>q\<bar> / u)"
  have r: "rnd q = (if 1024 \<le> e \<or> (e = 1023 \<and> m = 2 ^ 53)
                    then (if q < 0 then NInf else PInf)
                    else if m = 0 then (if q < 0 then NZero else Fin 0)
                    else Fin (if q < 0 then - (of_int m * u) else of_int m * u))"
    unfolding m_def u_def e_def by (rule rnd_unfold)
  have apos: "0 < \<bar>q\<bar>" using assms(1) by simp
  have upos: "0 < u" by (simp add: u_def pow2_pos)
  from ilog2_ge [OF apos assms(2)] have ke: "k \<le> ilog2 \<bar>q\<bar>" .
  then have ee: "e = ilog2 \<bar>q\<bar>" using assms(3) by (simp add: e_def)
  from ilog2_bounds [OF apos] have pe: "pow2 e \<le> \<bar>q\<bar>" by (simp add: ee)
  have split: "pow2 e = u * 2 ^ 52" unfolding u_def by (rule pow2_split)
  have "of_int (2 ^ 52) \<le> \<bar>q\<bar> / u"
    using pe upos by (simp add: split le_divide_eq mult.commute)
  then have km: "2 ^ 52 \<le> m" unfolding m_def by (rule round_even_ge)
  then have "(of_int (2 ^ 52) :: rat) \<le> of_int m" by (simp only: of_int_le_iff)
  then have c: "u * 2 ^ 52 \<le> of_int m * u" using upos by (simp add: mult.commute)
  have "pow2 k \<le> pow2 e" using ke unfolding ee by (rule pow2_mono)
  then have "pow2 k \<le> u * 2 ^ 52" by (simp only: split)
  from this c have big: "pow2 k \<le> of_int m * u" by (rule order_trans)
  have mne: "(m = 0) = False" using km by auto
  show ?thesis
  proof (cases "1024 \<le> e \<or> (e = 1023 \<and> m = 2 ^ 53)")
    case True
    then have "rnd q = (if q < 0 then NInf else PInf)" by (simp only: r if_True)
    then show ?thesis by simp
  next
    case False
    then have "rnd q = Fin (if q < 0 then - (of_int m * u) else of_int m * u)"
      by (simp only: r mne if_False)
    then show ?thesis using big by simp
  qed
qed

lemma pct_huge:
  assumes "0 < w" and "d \<noteq> 0" and "pow2 1000 \<le> \<bar>d / w\<bar>"
  shows "(0 < d \<longrightarrow> huge_pos (js_mul (js_div (Fin d) (Fin w)) (Fin 100)))
       \<and> (d < 0 \<longrightarrow> huge_neg (js_mul (js_div (Fin d) (Fin w)) (Fin 100)))"
proof -
  define q where "q = d / w"
  have qne: "q \<noteq> 0" using assms(1,2) by (simp add: q_def)
  have dv: "js_div (Fin d) (Fin w) = rnd q"
    using assms(1,2) by (simp add: js_div_def is_inf_def is_zero_def q_def)
  have k: "- 1022 \<le> (1000::int)" by simp
  from rnd_abs_ge [OF qne _ k] assms(3)
  have g: "0 < q \<longrightarrow> rnd q = PInf \<or> (\<exists>y. rnd q = Fin y \<and> pow2 1000 \<le> y)"
    and l: "q < 0 \<longrightarrow> rnd q = NInf \<or> (\<exists>y. rnd q = Fin y \<and> y \<le> - pow2 1000)"
    by (simp_all add: q_def)
  have "pow2 7 \<le> pow2 1000" by (rule pow2_mono) simp
  moreover have "pow2 7 = 128" by (simp add: pow2_def)
  ultimately have big: "128 \<le> pow2 1000" by simp
  have pos: "huge_pos (js_mul (rnd q) (Fin 100))" if "0 < d"
  proof -
    from that assms(1) have "0 < q" by (simp add: q_def)
    with g consider "rnd q = PInf" | y where "rnd q = Fin y" "pow2 1000 \<le> y" by blast
    then show ?thesis
    proof cases
      case 1
      then show ?thesis by (simp add: js_eval)
    next
      case 2
      have ypos: "0 < y" using 2(2) big by simp
      then have m: "js_mul (rnd q) (Fin 100) = rnd (y * 100)"
        by (simp add: 2(1) js_mul_def is_inf_def is_zero_def)
      have "y * 100 \<noteq> 0" and "0 < y * 100" using ypos by simp_all
      moreover have "pow2 1000 \<le> \<bar>y * 100\<bar>" using 2(2) ypos by simp
      ultimately have "rnd (y * 100) = PInf \<or> (\<exists>p. rnd (y * 100) = Fin p \<and> pow2 1000 \<le> p)"
        using rnd_abs_ge [of "y * 100" 1000] by simp
      then show ?thesis unfolding m using big by auto
    qed
  qed
  have neg: "huge_neg (js_mul (rnd q) (Fin 100))" if "d < 0"
  proof -
    from that assms(1) have "q < 0" by (simp add: q_def divide_neg_pos)
    with l consider "rnd q = NInf" | y where "rnd q = Fin y" "y \<le> - pow2 1000" by blast
    then show ?thesis
    proof cases
      case 1
      then show ?thesis by (simp add: js_eval)
    next
      case 2
      have yneg: "y < 0" using 2(2) big by simp
      then have m: "js_mul (rnd q) (Fin 100) = rnd (y * 100)"
        by (simp add: 2(1) js_mul_def is_inf_def is_zero_def)
      have "y * 100 \<noteq> 0" and "y * 100 < 0" using yneg by simp_all
      moreover have "pow2 1000 \<le> \<bar>y * 100\<bar>" using 2(2) yneg by simp
      ultimately have "rnd (y * 100) = NInf \<or> (\<exists>p. rnd (y * 100) = Fin p \<and> p \<le> - pow2 1000)"
        using rnd_abs_ge [of "y * 100" 1000] by simp
      then show ?thesis unfolding m using big by auto
    qed
  qed
  from pos neg show ?thesis unfolding dv by blast
qed

lemma pct_tiny:
  assumes "0 < w" and "d \<noteq> 0" and "\<bar>d / w\<bar> \<le> pow2 (- 999)"
  shows "is_finite (js_mul (js_div (Fin d) (Fin w)) (Fin 100))
       \<and> \<bar>val (js_mul (js_div (Fin d) (Fin w)) (Fin 100))\<bar> \<le> pow2 (- 992)"
proof -
  define q where "q = d / w"
  have qne: "q \<noteq> 0" using assms(1,2) by (simp add: q_def)
  have dv: "js_div (Fin d) (Fin w) = rnd q"
    using assms(1,2) by (simp add: js_div_def is_inf_def is_zero_def q_def)
  have "is_finite (rnd q) \<and> \<bar>val (rnd q)\<bar> \<le> pow2 (- 999)"
    using assms(3) by (intro rnd_abs_le [OF qne]) (simp_all add: q_def)
  then have f: "is_finite (rnd q)" and v: "\<bar>val (rnd q)\<bar> \<le> pow2 (- 999)" by simp_all
  have "pow2 (- 999 + 7) = pow2 (- 999) * pow2 7" by (rule pow2_add)
  moreover have "pow2 7 = 128" by (simp add: pow2_def)
  ultimately have p: "pow2 (- 992) = pow2 (- 999) * 128" by simp
  have p0: "(0::rat) < pow2 (- 999)" by (rule pow2_pos)
  have p2: "(0::rat) \<le> pow2 (- 992)" using pow2_pos [of "- 992"] by simp
  show ?thesis
  proof (cases "rnd q")
    case (Fin y)
    show ?thesis
    proof (cases "y = 0")
      case True
      then show ?thesis unfolding dv Fin using p2 by (simp add: js_eval)
    next
      case False
      then have m: "js_mul (rnd q) (Fin 100) = rnd (y * 100)"
        by (simp add: Fin js_mul_def is_inf_def is_zero_def)
      have ne: "y * 100 \<noteq> 0" using False by simp
      from v have "\<bar>y\<bar> \<le> pow2 (- 999)" by (simp add: Fin)
      then have "\<bar>y * 100\<bar> \<le> pow2 (- 992)" using p0 by (simp add: p abs_mult)
      then have "is_finite (rnd (y * 100)) \<and> \<bar>val (rnd (y * 100))\<bar> \<le> pow2 (- 992)"
        by (intro rnd_abs_le [OF ne]) simp_all
      then show ?thesis unfolding dv m .
    qed
  next
    case NZero
    then show ?thesis unfolding dv using p2 by (simp add: js_eval)
  next
    case NaN
    with f show ?thesis by simp
  next
    case PInf
    with f show ?thesis by simp
  next
    case NInf
    with f show ?thesis by simp
  qed
qed

lemma add_huge_pos:
  assumes "0 \<le> a" and "huge_pos P"
  shows "clamp_spec (js_add (Fin a) P) = Fin 100"
proof (cases P)
  case (Fin p)
  with assms have "100 \<le> a + p" by simp
  then show ?thesis unfolding Fin by (simp add: rnd_large_clamp)
qed (use assms in simp_all)

lemma add_huge_neg:
  assumes "a \<le> 100" and "huge_neg P"
  shows "clamp_spec (js_add (Fin a) P) = Fin 0"
proof (cases P)
  case (Fin p)
  with assms have "a + p \<le> 0" by simp
  then show ?thesis unfolding Fin by (cases "a + p = 0") (simp_all add: rnd_neg_clamp)
qed (use assms in simp_all)

lemma add_clamp_fin:
  assumes "is_finite P"
  shows "\<exists>y. clamp_spec (js_add (Fin a) P) = Fin y \<and> 0 \<le> y \<and> y \<le> 100
        \<and> \<bar>y - clampq (a + val P)\<bar> \<le> 1 / 2 ^ 47"
proof (cases P)
  case (Fin b)
  then show ?thesis using add_clamp [of a b] by simp
next
  case NZero
  have "0 \<le> clampq a \<and> clampq a \<le> 100" by (rule clampq_range)
  then show ?thesis unfolding NZero by (simp add: clampq_def)
qed (use assms in simp_all)

lemma axis_tiny:
  assumes "0 \<le> l" and "l \<le> 100"
    and "is_finite P" and "\<bar>val P\<bar> \<le> pow2 (- 992)"
    and "is_finite P2" and "\<bar>val P2\<bar> \<le> pow2 (- 992)"
  shows "close (clamp_spec (js_add (clamp_spec (js_add (Fin l) P)) P))
               (clamp_spec (js_add (Fin l) P2))"
proof -
  define p where "p = val P"
  define p2 where "p2 = val P2"
  define eps :: rat where "eps = 1 / 2 ^ 47"
  from add_clamp_fin [OF assms(3), of l] obtain y1 where
    y1: "clamp_spec (js_add (Fin l) P) = Fin y1" "\<bar>y1 - clampq (l + p)\<bar> \<le> eps"
    by (auto simp: p_def eps_def)
  from add_clamp_fin [OF assms(3), of y1] obtain y2 where
    y2: "clamp_spec (js_add (Fin y1) P) = Fin y2" "0 \<le> y2" "y2 \<le> 100"
        "\<bar>y2 - clampq (y1 + p)\<bar> \<le> eps"
    by (auto simp: p_def eps_def)
  from add_clamp_fin [OF assms(5), of l] obtain y' where
    y': "clamp_spec (js_add (Fin l) P2) = Fin y'" "0 \<le> y'" "y' \<le> 100"
        "\<bar>y' - clampq (l + p2)\<bar> \<le> eps"
    by (auto simp: p2_def eps_def)
  have "pow2 (- 992) \<le> pow2 (- 49)" by (rule pow2_mono) simp
  moreover have "pow2 (- 49) = 1 / 2 ^ 49" by (simp add: pow2_def)
  moreover have "(1 / 2 ^ 49 :: rat) = eps / 4" by (simp add: eps_def)
  ultimately have d: "pow2 (- 992) \<le> eps / 4" by simp
  have sp: "\<bar>p\<bar> \<le> eps / 4" using assms(4) d by (simp add: p_def)
  have sp2: "\<bar>p2\<bar> \<le> eps / 4" using assms(6) d by (simp add: p2_def)
  have cl: "clampq l = l" using assms(1,2) by (simp add: clampq_def)
  have a: "\<bar>clampq (l + p) - l\<bar> \<le> \<bar>p\<bar>"
    using clampq_lipschitz [of "l + p" l] by (simp add: cl)
  have b: "\<bar>clampq (y1 + p) - clampq (l + p2)\<bar> \<le> \<bar>(y1 + p) - (l + p2)\<bar>"
    by (rule clampq_lipschitz)
  have "\<bar>y2 - y'\<bar> \<le> 4 * eps"
    using y1(2) y2(4) y'(4) sp sp2 a b by linarith
  then have "\<bar>y2 - y'\<bar> \<le> 1 / 2 ^ 45" by (simp add: eps_def)
  then show ?thesis
    unfolding y1(1) y2(1) y'(1) using y2(2,3) y'(2,3) by simp
qed

lemma axis_any:
  assumes "0 < w" and "0 \<le> l" and "l \<le> 100"
  shows "close (clamp_spec (js_add (clamp_spec (js_add (Fin l)
                   (js_mul (js_div (Fin d) (Fin w)) (Fin 100))))
                   (js_mul (js_div (Fin d) (Fin w)) (Fin 100))))
               (clamp_spec (js_add (Fin l) (js_mul (js_div (Fin (2 * d)) (Fin w)) (Fin 100))))"
proof (cases "ordinary d w")
  case True
  from percent_double [OF assms(1) True] obtain p where
    p: "js_mul (js_div (Fin d) (Fin w)) (Fin 100) = Fin p"
       "js_mul (js_div (Fin (2 * d)) (Fin w)) (Fin 100) = Fin (2 * p)"
    by blast
  show ?thesis unfolding p by (rule axis_close [OF assms(2,3)])
next
  case False
  then have dne: "d \<noteq> 0" by (auto simp: ordinary_def)
  then have d2ne: "2 * d \<noteq> 0" by simp
  have q2: "\<bar>2 * d / w\<bar> = 2 * \<bar>d / w\<bar>" by (simp add: abs_mult)
  from False consider "pow2 1000 < \<bar>d / w\<bar>" | "\<bar>d / w\<bar> < pow2 (- 1000)"
    by (auto simp: ordinary_def)
  then show ?thesis
  proof cases
    case 1
    then have b1: "pow2 1000 \<le> \<bar>d / w\<bar>" by simp
    have pp: "(0::rat) < pow2 1000" by (rule pow2_pos)
    have b2: "pow2 1000 \<le> \<bar>2 * d / w\<bar>" unfolding q2 using 1 pp by linarith
    note h1 = pct_huge [OF assms(1) dne b1]
    note h2 = pct_huge [OF assms(1) d2ne b2]
    show ?thesis
    proof (cases "0 < d")
      case True
      then have P: "huge_pos (js_mul (js_div (Fin d) (Fin w)) (Fin 100))"
        and P2: "huge_pos (js_mul (js_div (Fin (2 * d)) (Fin w)) (Fin 100))"
        using h1 h2 by simp_all
      have "clamp_spec (js_add (Fin l) (js_mul (js_div (Fin d) (Fin w)) (Fin 100))) = Fin 100"
        by (rule add_huge_pos [OF assms(2) P])
      moreover have "clamp_spec (js_add (Fin 100) (js_mul (js_div (Fin d) (Fin w)) (Fin 100)))
                     = Fin 100"
        by (rule add_huge_pos [OF _ P]) simp
      moreover have "clamp_spec (js_add (Fin l) (js_mul (js_div (Fin (2 * d)) (Fin w)) (Fin 100)))
                     = Fin 100"
        by (rule add_huge_pos [OF assms(2) P2])
      ultimately show ?thesis by simp
    next
      case False
      with dne have "d < 0" by simp
      then have P: "huge_neg (js_mul (js_div (Fin d) (Fin w)) (Fin 100))"
        and P2: "huge_neg (js_mul (js_div (Fin (2 * d)) (Fin w)) (Fin 100))"
        using h1 h2 by simp_all
      have "clamp_spec (js_add (Fin l) (js_mul (js_div (Fin d) (Fin w)) (Fin 100))) = Fin 0"
        by (rule add_huge_neg [OF assms(3) P])
      moreover have "clamp_spec (js_add (Fin 0) (js_mul (js_div (Fin d) (Fin w)) (Fin 100)))
                     = Fin 0"
        by (rule add_huge_neg [OF _ P]) simp
      moreover have "clamp_spec (js_add (Fin l) (js_mul (js_div (Fin (2 * d)) (Fin w)) (Fin 100)))
                     = Fin 0"
        by (rule add_huge_neg [OF assms(3) P2])
      ultimately show ?thesis by simp
    qed
  next
    case 2
    have s: "pow2 (- 999) = 2 * pow2 (- 1000)" using pow2_Suc [of "- 1000"] by simp
    have "pow2 (- 1000) \<le> pow2 (- 999)" by (rule pow2_mono) simp
    with 2 have b1: "\<bar>d / w\<bar> \<le> pow2 (- 999)" by simp
    have b2: "\<bar>2 * d / w\<bar> \<le> pow2 (- 999)" unfolding q2 using 2 s by linarith
    from pct_tiny [OF assms(1) dne b1] pct_tiny [OF assms(1) d2ne b2]
    show ?thesis by (intro axis_tiny [OF assms(2,3)]) simp_all
  qed
qed

text \<open>
  Claim C9, amended. On a surface box of positive width and height, for every field
  position in \<open>[0, 100]\<close> and every pixel delta \<open>(dx, dy)\<close>: the field moved by
  \<open>(dx, dy)\<close> and then, from where it stands, by \<open>(dx, dy)\<close> again, and the field moved
  once by \<open>(2 dx, 2 dy)\<close>, both end at numbers in \<open>[0, 100]\<close> that differ by at most
  \<open>1 / 2 ^ 45\<close> (about \<open>2.8e-14\<close>) in each coordinate, whether or not a coordinate is
  clamped on the way. The difference is the rounding of the sums; the two results need
  not be equal.
\<close>

theorem move_twice_close:
  assumes "0 < w" and "0 < h" and "0 \<le> l" and "l \<le> 100" and "0 \<le> t" and "t \<le> 100"
    and "width b = Fin w" and "height b = Fin h"
    and "getDifferenceFromInitialOffset m1 = Some \<lparr>x_p = Fin dx, y_p = Fin dy\<rparr>"
    and "getDifferenceFromInitialOffset m2 = Some \<lparr>x_p = Fin (2 * dx), y_p = Fin (2 * dy)\<rparr>"
  shows "drop_PdfPage pn (PlacedItem i (Fin l) (Fin t) ty) m1 (Some b) s
           = handleMoveField i
               (fst (moveExisting_spec (Fin l) (Fin t) \<lparr>x_p = Fin dx, y_p = Fin dy\<rparr> b))
               (snd (moveExisting_spec (Fin l) (Fin t) \<lparr>x_p = Fin dx, y_p = Fin dy\<rparr> b)) s
       \<and> drop_PdfPage pn
             (PlacedItem i
               (fst (moveExisting_spec (Fin l) (Fin t) \<lparr>x_p = Fin dx, y_p = Fin dy\<rparr> b))
               (snd (moveExisting_spec (Fin l) (Fin t) \<lparr>x_p = Fin dx, y_p = Fin dy\<rparr> b)) ty)
             m1 (Some b)
             (drop_PdfPage pn (PlacedItem i (Fin l) (Fin t) ty) m1 (Some b) s)
           = handleMoveField i
               (fst (moved_twice (Fin l) (Fin t) \<lparr>x_p = Fin dx, y_p = Fin dy\<rparr> b))
               (snd (moved_twice (Fin l) (Fin t) \<lparr>x_p = Fin dx, y_p = Fin dy\<rparr> b)) s
       \<and> drop_PdfPage pn (PlacedItem i (Fin l) (Fin t) ty) m2 (Some b) s
           = handleMoveField i
               (fst (moveExisting_spec (Fin l) (Fin t)
                      \<lparr>x_p = Fin (2 * dx), y_p = Fin (2 * dy)\<rparr> b))
               (snd (moveExisting_spec (Fin l) (Fin t)
                      \<lparr>x_p = Fin (2 * dx), y_p = Fin (2 * dy)\<rparr> b)) s
       \<and> close (fst (moved_twice (Fin l) (Fin t) \<lparr>x_p = Fin dx, y_p = Fin dy\<rparr> b))
               (fst (moveExisting_spec (Fin l) (Fin t)
                      \<lparr>x_p = Fin (2 * dx), y_p = Fin (2 * dy)\<rparr> b))
       \<and> close (snd (moved_twice (Fin l) (Fin t) \<lparr>x_p = Fin dx, y_p = Fin dy\<rparr> b))
               (snd (moveExisting_spec (Fin l) (Fin t)
                      \<lparr>x_p = Fin (2 * dx), y_p = Fin (2 * dy)\<rparr> b))"
proof -
  let ?d = "\<lparr>x_p = Fin dx, y_p = Fin dy\<rparr>"
  let ?d2 = "\<lparr>x_p = Fin (2 * dx), y_p = Fin (2 * dy)\<rparr>"
  let ?px = "js_mul (js_div (Fin dx) (Fin w)) (Fin 100)"
  let ?py = "js_mul (js_div (Fin dy) (Fin h)) (Fin 100)"
  let ?px2 = "js_mul (js_div (Fin (2 * dx)) (Fin w)) (Fin 100)"
  let ?py2 = "js_mul (js_div (Fin (2 * dy)) (Fin h)) (Fin 100)"
  have A: "moveExisting_spec (Fin l) (Fin t) ?d b
           = (clamp_spec (js_add (Fin l) ?px), clamp_spec (js_add (Fin t) ?py))"
    by (simp add: moveExisting_spec_def assms(7,8))
  have B: "moved_twice (Fin l) (Fin t) ?d b
           = (clamp_spec (js_add (clamp_spec (js_add (Fin l) ?px)) ?px),
              clamp_spec (js_add (clamp_spec (js_add (Fin t) ?py)) ?py))"
    unfolding moved_twice_def A
    by (simp add: moveExisting_spec_def assms(7,8))
  have C: "moveExisting_spec (Fin l) (Fin t) ?d2 b
           = (clamp_spec (js_add (Fin l) ?px2), clamp_spec (js_add (Fin t) ?py2))"
    by (simp add: moveExisting_spec_def assms(7,8))
  have first: "drop_PdfPage pn (PlacedItem i (Fin l) (Fin t) ty) m1 (Some b) s
           = handleMoveField i (fst (moveExisting_spec (Fin l) (Fin t) ?d b))
               (snd (moveExisting_spec (Fin l) (Fin t) ?d b)) s"
    using assms(9) by (simp add: drop_PdfPage_def moveExisting_spec_def clamp_code)
  have second: "drop_PdfPage pn
             (PlacedItem i (fst (moveExisting_spec (Fin l) (Fin t) ?d b))
               (snd (moveExisting_spec (Fin l) (Fin t) ?d b)) ty)
             m1 (Some b)
             (drop_PdfPage pn (PlacedItem i (Fin l) (Fin t) ty) m1 (Some b) s)
           = handleMoveField i (fst (moved_twice (Fin l) (Fin t) ?d b))
               (snd (moved_twice (Fin l) (Fin t) ?d b)) s"
    unfolding first using assms(9)
    by (simp add: drop_PdfPage_def moveExisting_spec_def moved_twice_def clamp_code
        handleMoveField_twice)
  have once: "drop_PdfPage pn (PlacedItem i (Fin l) (Fin t) ty) m2 (Some b) s
           = handleMoveField i (fst (moveExisting_spec (Fin l) (Fin t) ?d2 b))
               (snd (moveExisting_spec (Fin l) (Fin t) ?d2 b)) s"
    using assms(10) by (simp add: drop_PdfPage_def moveExisting_spec_def clamp_code)
  have cx: "close (fst (moved_twice (Fin l) (Fin t) ?d b))
               (fst (moveExisting_spec (Fin l) (Fin t) ?d2 b))"
    unfolding B C using axis_any [OF assms(1,3,4), of dx] by simp
  have cy: "close (snd (moved_twice (Fin l) (Fin t) ?d b))
               (snd (moveExisting_spec (Fin l) (Fin t) ?d2 b))"
    unfolding B C using axis_any [OF assms(2,5,6), of dy] by simp
  from first second once cx cy show ?thesis by blast
qed

theorem move_twice_close_witness:
  "moved_twice (Fin (1 / 2)) (Fin 0) \<lparr>x_p = Fin 7, y_p = Fin 0\<rparr> box_200_400
       = (Fin (15 / 2), Fin 0)
   \<and> moveExisting_spec (Fin (1 / 2)) (Fin 0) \<lparr>x_p = Fin (2 * 7), y_p = Fin (2 * 0)\<rparr> box_200_400
       = (Fin (8444249301319681 / 1125899906842624), Fin 0)
   \<and> close (Fin (15 / 2)) (Fin (8444249301319681 / 1125899906842624))
   \<and> close (Fin 0) (Fin 0)
   \<and> Fin (15 / 2) \<noteq> Fin (8444249301319681 / 1125899906842624)"
proof -
  have y: "js_add (Fin 0) (js_mul (js_div (Fin 0) (Fin 400)) (Fin 100)) = Fin 0"
    by (simp add: js_eval)
  have x1: "js_add (Fin (1 / 2)) (js_mul (js_div (Fin 7) (Fin 200)) (Fin 100)) = Fin 4"
    by (simp add: js_eval rnd_eval)
  have x2: "js_add (Fin 4) (js_mul (js_div (Fin 7) (Fin 200)) (Fin 100)) = Fin (15 / 2)"
    by (simp add: js_eval rnd_eval)
  have x3: "js_add (Fin (1 / 2)) (js_mul (js_div (Fin 14) (Fin 200)) (Fin 100))
            = Fin (8444249301319681 / 1125899906842624)"
    by (simp add: js_eval rnd_eval)
  have A: "moveExisting_spec (Fin (1 / 2)) (Fin 0) \<lparr>x_p = Fin 7, y_p = Fin 0\<rparr> box_200_400
           = (Fin 4, Fin 0)"
    by (simp add: moveExisting_spec_def box_200_400_def x1 y)
  have B: "moved_twice (Fin (1 / 2)) (Fin 0) \<lparr>x_p = Fin 7, y_p = Fin 0\<rparr> box_200_400
           = (Fin (15 / 2), Fin 0)"
    unfolding moved_twice_def A by (simp add: moveExisting_spec_def box_200_400_def x2 y)
  have C: "moveExisting_spec (Fin (1 / 2)) (Fin 0) \<lparr>x_p = Fin (2 * 7), y_p = Fin (2 * 0)\<rparr>
             box_200_400
           = (Fin (8444249301319681 / 1125899906842624), Fin 0)"
    by (simp add: moveExisting_spec_def box_200_400_def x3 y)
  have m1: "getDifferenceFromInitialOffset (dragged_by 7 0) = Some \<lparr>x_p = Fin 7, y_p = Fin 0\<rparr>"
    by (simp add: dragged_by_def)
  have m2: "getDifferenceFromInitialOffset (dragged_by 14 0)
            = Some \<lparr>x_p = Fin (2 * 7), y_p = Fin (2 * 0)\<rparr>"
    by (simp add: dragged_by_def)
  have w: "width box_200_400 = Fin 200" and h: "height box_200_400 = Fin 400"
    by (simp_all add: box_200_400_def)
  have "(0::rat) < 200" "(0::rat) < 400" "(0::rat) \<le> 1 / 2" "(1 / 2 :: rat) \<le> 100"
    "(0::rat) \<le> 0" "(0::rat) \<le> 100"
    by simp_all
  note t = move_twice_close [OF this w h m1 m2, of 1 0 "''Signature''" scenario_half]
  have "close (fst (moved_twice (Fin (1 / 2)) (Fin 0) \<lparr>x_p = Fin 7, y_p = Fin 0\<rparr> box_200_400))
          (fst (moveExisting_spec (Fin (1 / 2)) (Fin 0)
                 \<lparr>x_p = Fin (2 * 7), y_p = Fin (2 * 0)\<rparr> box_200_400))"
    using t by blast
  then have cx: "close (Fin (15 / 2)) (Fin (8444249301319681 / 1125899906842624))"
    unfolding B C by simp
  have "close (snd (moved_twice (Fin (1 / 2)) (Fin 0) \<lparr>x_p = Fin 7, y_p = Fin 0\<rparr> box_200_400))
          (snd (moveExisting_spec (Fin (1 / 2)) (Fin 0)
                 \<lparr>x_p = Fin (2 * 7), y_p = Fin (2 * 0)\<rparr> box_200_400))"
    using t by blast
  then have cy: "close (Fin 0) (Fin 0)"
    unfolding B C by simp
  have ne: "Fin (15 / 2) \<noteq> Fin (8444249301319681 / 1125899906842624)" by simp
  from B C cx cy ne show ?thesis by blast
qed

section \<open>References from fields to fillers\<close>

lemma live_None [simp]: "live rs None"
  by (simp add: live_def)

lemma live_Some [simp]: "live rs (Some v) = (v \<in> id_r ` set rs)"
  by (auto simp: live_def list_ex_iff)













end
